theory Spec2Isabelle
  imports Complex_Main "HOL-Library.Log_Nat"
begin

section \<open>The cart engine of maisha-boutique (backend/routes/cart.js)\<close>

text \<open>
  The cart routes are handlers over one Mongoose collection. The embedding keeps the
  collection as a list of documents in insertion order (the order in which
  \<^verbatim>\<open>findOne\<close> meets them), every handler as a function from the request and the
  collection to the new collection and the response, and every early
  \<^verbatim>\<open>return res.status(4xx)\<close> and every failing \<^verbatim>\<open>save\<close> as an error value.

  A \<^verbatim>\<open>user\<close> is absent or a well-formed ObjectId (a natural number here), a
  \<^verbatim>\<open>sessionId\<close> and a \<^verbatim>\<open>name\<close> are absent or a string, a \<^verbatim>\<open>price\<close> is absent or
  a number; for these fields \<^verbatim>\<open>undefined\<close> and \<^verbatim>\<open>null\<close> behave alike and are both
  \<open>None\<close>. A \<^verbatim>\<open>quantity\<close> is absent, \<^verbatim>\<open>null\<close> or a number, which the handlers
  tell apart.
\<close>

subsection \<open>JavaScript numbers\<close>

text \<open>
  A Number is an IEEE-754 binary64 value: a finite double, kept as the rational it
  denotes, an infinity or NaN. The two zeros are one value here: no handler divides by a
  number or prints its sign.
\<close>

datatype number = Finite rat | PosInf | NegInf | NaN

text \<open>Rounding to the nearest integer, ties to the even one.\<close>

definition round_half_even :: "rat \<Rightarrow> int" where
  "round_half_even x =
     (let f = \<lfloor>x\<rfloor>; d = x - of_int f
      in if d < 1 / 2 then f else if 1 / 2 < d then f + 1 else if even f then f else f + 1)"

text \<open>For \<open>0 < x\<close> and \<open>1 < b\<close>, the integer \<open>e\<close> with \<open>b ^ e \<le> x < b ^ (e + 1)\<close>.\<close>

definition floor_log :: "nat \<Rightarrow> rat \<Rightarrow> int" where
  "floor_log b x =
     (if 1 \<le> x then int (floorlog b (nat \<lfloor>x\<rfloor>)) - 1
      else - int (floorlog b (nat (\<lceil>1 / x\<rceil> - 1))))"

text \<open>
  The double nearest to a rational, ties to the even significand: 53 significant bits,
  the least exponent of a bit -1074 (subnormals), and infinity from \<open>2 ^ 1024\<close> on.
\<close>

definition round_double :: "rat \<Rightarrow> number" where
  "round_double x =
     (if x = 0 then Finite 0
      else
        let a = \<bar>x\<bar>;
            E = max (floor_log 2 a - 52) (- 1074);
            r = of_int (round_half_even (a / 2 powi E)) * 2 powi E
        in if 2 ^ 1024 \<le> r then (if 0 < x then PosInf else NegInf)
           else Finite (if 0 < x then r else - r))"

text \<open>The operators \<^verbatim>\<open>+\<close> and \<^verbatim>\<open>*\<close> on Numbers.\<close>

fun js_add :: "number \<Rightarrow> number \<Rightarrow> number" where
  "js_add (Finite a) (Finite b) = round_double (a + b)"
| "js_add NaN y = NaN"
| "js_add x NaN = NaN"
| "js_add PosInf NegInf = NaN"
| "js_add NegInf PosInf = NaN"
| "js_add PosInf y = PosInf"
| "js_add x PosInf = PosInf"
| "js_add NegInf y = NegInf"
| "js_add x NegInf = NegInf"

fun positive :: "number \<Rightarrow> bool" where
  "positive (Finite a) \<longleftrightarrow> 0 < a"
| "positive PosInf \<longleftrightarrow> True"
| "positive NegInf \<longleftrightarrow> False"
| "positive NaN \<longleftrightarrow> False"

fun js_mul :: "number \<Rightarrow> number \<Rightarrow> number" where
  "js_mul (Finite a) (Finite b) = round_double (a * b)"
| "js_mul x y =
     (if x = NaN \<or> y = NaN \<or> x = Finite 0 \<or> y = Finite 0 then NaN
      else if positive x = positive y then PosInf else NegInf)"

text \<open>\<^verbatim>\<open>!x\<close> on a Number, and \<^verbatim>\<open>x >= 1\<close> (the validator of \<^verbatim>\<open>min: 1\<close>).\<close>

fun falsy :: "number \<Rightarrow> bool" where
  "falsy (Finite a) \<longleftrightarrow> a = 0"
| "falsy NaN \<longleftrightarrow> True"
| "falsy x \<longleftrightarrow> False"

fun ge1 :: "number \<Rightarrow> bool" where
  "ge1 (Finite r) \<longleftrightarrow> 1 \<le> r"
| "ge1 PosInf \<longleftrightarrow> True"
| "ge1 NegInf \<longleftrightarrow> False"
| "ge1 NaN \<longleftrightarrow> False"

text \<open>
  \<^verbatim>\<open>parseInt(x)\<close> on a Number reads the digits of \<^verbatim>\<open>String(x)\<close> up to the first
  character that is not a digit. \<^verbatim>\<open>String(x)\<close> is the shortest decimal that rounds to
  \<open>x\<close>; it is written with an exponent, one digit before the point, when its leading
  digit stands at \<open>10 ^ 21\<close> or above, or below \<open>1 / 10 ^ 6\<close>. So \<^verbatim>\<open>parseInt\<close> is the
  integer part of a number from 1 to below \<open>10 ^ 21\<close>, 0 below 1 down to the decimals
  written without exponent, the leading digit of the shortest decimal elsewhere, and NaN
  for \<^verbatim>\<open>"Infinity"\<close> and \<^verbatim>\<open>"NaN"\<close>.
\<close>

text \<open>The leading digit and its decimal exponent in the shortest decimal of a double
  \<open>0 < a\<close>: a one-digit decimal above \<open>a\<close> that rounds to \<open>a\<close>, or else the leading
  digit of \<open>a\<close> itself.\<close>

definition shortest_lead :: "rat \<Rightarrow> int \<times> int" where
  "shortest_lead a =
     (let k = floor_log 10 a; d = \<lfloor>a / 10 powi k\<rfloor>
      in if round_double (of_int (d + 1) * 10 powi k) = Finite a
         then (if d = 9 then (1, k + 1) else (d + 1, k))
         else (d, k))"

definition js_parseInt :: "number \<Rightarrow> number" where
  "js_parseInt x =
     (case x of
        Finite r \<Rightarrow>
          (let a = \<bar>r\<bar>; s = (if r < 0 then - 1 else 1)
           in if a = 0 then Finite 0
              else if 1 \<le> a \<and> a < 10 ^ 21 then Finite (s * of_int \<lfloor>a\<rfloor>)
              else let (d, k) = shortest_lead a
                   in if a < 1 \<and> - 6 \<le> k then Finite 0 else Finite (s * of_int d))
      | _ \<Rightarrow> NaN)"

text \<open>The rational a finite number denotes, and the numbers that are integers.\<close>

fun rat_of :: "number \<Rightarrow> rat" where
  "rat_of (Finite r) = r"
| "rat_of x = 0"

fun is_integer :: "number \<Rightarrow> bool" where
  "is_integer (Finite r) \<longleftrightarrow> r = of_int \<lfloor>r\<rfloor>"
| "is_integer x \<longleftrightarrow> False"

subsection \<open>The cart schema\<close>

datatype cart_status = Active | Ordered | Abandoned

record cart_item =
  name :: string
  price :: number
  image_url :: "string option"
  quantity :: number

record cart =
  cart_id :: nat
  user :: "nat option"
  items :: "cart_item list"
  totalPrice :: number
  status :: cart_status
  sessionId :: "string option"

text \<open>The collection, and the counter from which \<^verbatim>\<open>new Cart\<close> draws its \<^verbatim>\<open>_id\<close>.\<close>

record store =
  carts :: "cart list"
  next_id :: nat

definition empty_store :: store where
  "empty_store = \<lparr>carts = [], next_id = 0\<rparr>"

subsection \<open>Requests and responses\<close>

text \<open>The fields a handler destructures from \<^verbatim>\<open>req.body\<close> (or \<^verbatim>\<open>req.query\<close>).\<close>

datatype quantity_field = QUndefined | QNull | QNumber number

record request =
  body_user :: "nat option"
  body_sessionId :: "string option"
  body_name :: "string option"
  body_price :: "number option"
  body_image :: "string option"
  body_quantity :: quantity_field

text \<open>Status 400, 404 and 500.\<close>

datatype error = BadRequest | NotFound | ServerError

text \<open>
  The \<^verbatim>\<open>data\<close> of a success response: a cart document, the literal
  \<^verbatim>\<open>{ items: [], totalPrice: 0 }\<close> of \<^verbatim>\<open>GET /cart\<close>, or no \<^verbatim>\<open>data\<close> field.
\<close>

datatype response_data = CartDoc cart | PlainView "cart_item list" number | NoData

type_synonym response = "error + response_data"

subsection \<open>The pre-save hook and schema validation\<close>

text \<open>
  \<^verbatim>\<open>this.items.reduce((acc, item) => acc + item.price * item.quantity, 0)\<close>
\<close>

definition items_total :: "cart_item list \<Rightarrow> number" where
  "items_total its =
     foldl (\<lambda>acc item. js_add acc (js_mul (price item) (quantity item))) (Finite 0) its"

text \<open>
  The hook assigns the sum to \<^verbatim>\<open>this.totalPrice\<close>, a Number path of the schema. Mongoose
  casts what is assigned to a path: an infinity is a Number to it, NaN is not, and an
  assignment whose cast fails leaves the path as it was. The hook runs after the
  validation of \<^verbatim>\<open>save\<close>, so the failed cast does not stop the save.
\<close>

definition pre_save :: "cart \<Rightarrow> cart" where
  "pre_save c = (let t = items_total (items c) in if t = NaN then c else c\<lparr>totalPrice := t\<rparr>)"

text \<open>
  The item schema: \<^verbatim>\<open>name\<close> is a required string (Mongoose refuses the empty
  string), \<^verbatim>\<open>quantity\<close> is a required Number with \<^verbatim>\<open>min: 1\<close>, \<^verbatim>\<open>price\<close> is a
  required Number; NaN is no Number to Mongoose.
\<close>

definition valid_item :: "cart_item \<Rightarrow> bool" where
  "valid_item it \<longleftrightarrow> name it \<noteq> [] \<and> price it \<noteq> NaN \<and> ge1 (quantity it)"

definition validate :: "cart \<Rightarrow> bool" where
  "validate c \<longleftrightarrow> list_all valid_item (items c)"

subsection \<open>Collection operations\<close>

text \<open>\<^verbatim>\<open>Array.prototype.findIndex\<close>; \<open>None\<close> is the result -1.\<close>

fun findIndex :: "('a \<Rightarrow> bool) \<Rightarrow> 'a list \<Rightarrow> nat option" where
  "findIndex p [] = None"
| "findIndex p (x # xs) = (if p x then Some 0 else map_option Suc (findIndex p xs))"

text \<open>\<^verbatim>\<open>Cart.findOne(filter)\<close>: the first document that matches.\<close>

definition findOne :: "(cart \<Rightarrow> bool) \<Rightarrow> store \<Rightarrow> cart option" where
  "findOne p st = List.find p (carts st)"

text \<open>
  The filters \<^verbatim>\<open>{ user, status: "active" }\<close> and \<^verbatim>\<open>{ sessionId, status: "active" }\<close>.
  A session id that the request does not carry reaches the database as \<^verbatim>\<open>null\<close>, which
  matches the carts without a session id.
\<close>

definition by_user :: "nat \<Rightarrow> cart \<Rightarrow> bool" where
  "by_user u c \<longleftrightarrow> user c = Some u \<and> status c = Active"

definition by_session :: "string option \<Rightarrow> cart \<Rightarrow> bool" where
  "by_session s c \<longleftrightarrow> sessionId c = s \<and> status c = Active"

text \<open>
  \<^verbatim>\<open>user ? await Cart.findOne({ user, status: "active" })
       : await Cart.findOne({ sessionId, status: "active" })\<close>
\<close>

definition find_cart :: "request \<Rightarrow> store \<Rightarrow> cart option" where
  "find_cart req st =
     (case body_user req of
        Some u \<Rightarrow> findOne (by_user u) st
      | None \<Rightarrow> findOne (by_session (body_sessionId req)) st)"

text \<open>\<^verbatim>\<open>new Cart({ user, sessionId, items: [], status: "active" })\<close>, with a fresh id.\<close>

definition new_Cart :: "request \<Rightarrow> store \<Rightarrow> cart \<times> store" where
  "new_Cart req st =
     (\<lparr>cart_id = next_id st, user = body_user req, items = [], totalPrice = Finite 0,
       status = Active, sessionId = body_sessionId req\<rparr>,
      st\<lparr>next_id := Suc (next_id st)\<rparr>)"

text \<open>Writing a document back: the first document with its \<^verbatim>\<open>_id\<close> is replaced.\<close>

fun update_first :: "cart \<Rightarrow> cart list \<Rightarrow> cart list" where
  "update_first c [] = []"
| "update_first c (d # ds) =
     (if cart_id d = cart_id c then c # ds else d # update_first c ds)"

text \<open>\<^verbatim>\<open>Cart.deleteOne({ _id })\<close>: the first document with that id is removed.\<close>

fun deleteOne :: "nat \<Rightarrow> cart list \<Rightarrow> cart list" where
  "deleteOne i [] = []"
| "deleteOne i (d # ds) = (if cart_id d = i then ds else d # deleteOne i ds)"

text \<open>
  \<^verbatim>\<open>await cart.save()\<close>: validation, then the pre-save hook, then an insert (a
  document made by \<^verbatim>\<open>new Cart\<close>) or an update. \<open>None\<close> is the rejected save, which
  the handler's \<^verbatim>\<open>catch\<close> turns into status 500.
\<close>

definition save :: "bool \<Rightarrow> cart \<Rightarrow> store \<Rightarrow> (store \<times> cart) option" where
  "save isNew c st =
     (if \<not> validate c then None
      else let c' = pre_save c
           in Some (st\<lparr>carts := (if isNew then carts st @ [c'] else update_first c' (carts st))\<rparr>,
                    c'))"

text \<open>What every mutating handler does last: save, and answer with the document.\<close>

definition save_and_respond :: "bool \<Rightarrow> cart \<Rightarrow> store \<Rightarrow> store \<times> response" where
  "save_and_respond isNew c st =
     (case save isNew c st of
        None \<Rightarrow> (st, Inl ServerError)
      | Some (st', c') \<Rightarrow> (st', Inr (CartDoc c')))"

subsection \<open>The handlers\<close>

text \<open>
  \<^verbatim>\<open>cart.items[existingIndex].quantity += n\<close> and \<^verbatim>\<open>item.quantity = n\<close> on the item
  at a known index.
\<close>

definition add_quantity :: "nat \<Rightarrow> number \<Rightarrow> cart_item list \<Rightarrow> cart_item list" where
  "add_quantity i n its = its[i := (its ! i)\<lparr>quantity := js_add (quantity (its ! i)) n\<rparr>]"

definition set_quantity :: "nat \<Rightarrow> number \<Rightarrow> cart_item list \<Rightarrow> cart_item list" where
  "set_quantity i n its = its[i := (its ! i)\<lparr>quantity := n\<rparr>]"

text \<open>\<^verbatim>\<open>parseInt(quantity)\<close> on the field of the body: \<^verbatim>\<open>"undefined"\<close> and
  \<^verbatim>\<open>"null"\<close> have no digits.\<close>

definition parseInt_quantity :: "quantity_field \<Rightarrow> number" where
  "parseInt_quantity q =
     (case q of QUndefined \<Rightarrow> NaN | QNull \<Rightarrow> NaN | QNumber x \<Rightarrow> js_parseInt x)"

text \<open>The amount \<^verbatim>\<open>parseInt(quantity)\<close> of POST /cart/add, where the destructuring
  \<^verbatim>\<open>quantity = 1\<close> gives a missing quantity, and no other, the default 1.\<close>

definition requested_quantity :: "request \<Rightarrow> number" where
  "requested_quantity req =
     (case body_quantity req of
        QUndefined \<Rightarrow> parseInt_quantity (QNumber (Finite 1))
      | q \<Rightarrow> parseInt_quantity q)"

text \<open>POST /cart/add. \<^verbatim>\<open>!name\<close> holds of a missing and of an empty name, \<^verbatim>\<open>!price\<close>
  of a missing price, of the price 0 and of NaN.\<close>

definition addItem :: "request \<Rightarrow> store \<Rightarrow> store \<times> response" where
  "addItem req st =
     (case (body_name req, body_price req) of
        (Some nm, Some pr) \<Rightarrow>
          if nm = [] \<or> falsy pr then (st, Inl BadRequest)
          else
            let q = requested_quantity req;
                (isNew, cart, st1) =
                  (case find_cart req st of
                     Some c \<Rightarrow> (False, c, st)
                   | None \<Rightarrow> (let (c, st') = new_Cart req st in (True, c, st')));
                its = (case findIndex (\<lambda>item. name item = nm) (items cart) of
                         Some i \<Rightarrow> add_quantity i q (items cart)
                       | None \<Rightarrow> items cart @
                           [\<lparr>name = nm, price = pr, image_url = body_image req, quantity = q\<rparr>])
            in save_and_respond isNew (cart\<lparr>items := its\<rparr>) st1
      | _ \<Rightarrow> (st, Inl BadRequest))"

text \<open>GET /cart.\<close>

definition getCart :: "request \<Rightarrow> store \<Rightarrow> store \<times> response" where
  "getCart req st =
     (case find_cart req st of
        Some c \<Rightarrow> (st, Inr (CartDoc c))
      | None \<Rightarrow> (st, Inr (PlainView [] (Finite 0))))"

text \<open>PUT /cart/update: \<^verbatim>\<open>item.quantity = parseInt(quantity)\<close>, with no default.\<close>

definition updateQuantity :: "request \<Rightarrow> store \<Rightarrow> store \<times> response" where
  "updateQuantity req st =
     (case find_cart req st of
        None \<Rightarrow> (st, Inl NotFound)
      | Some cart \<Rightarrow>
          (case findIndex (\<lambda>item. Some (name item) = body_name req) (items cart) of
             None \<Rightarrow> (st, Inl NotFound)
           | Some i \<Rightarrow>
               save_and_respond False
                 (cart\<lparr>items := set_quantity i (parseInt_quantity (body_quantity req))
                                   (items cart)\<rparr>) st))"

text \<open>DELETE /cart/remove.\<close>

definition removeItem :: "request \<Rightarrow> store \<Rightarrow> store \<times> response" where
  "removeItem req st =
     (case find_cart req st of
        None \<Rightarrow> (st, Inl NotFound)
      | Some cart \<Rightarrow>
          save_and_respond False
            (cart\<lparr>items := filter (\<lambda>item. Some (name item) \<noteq> body_name req) (items cart)\<rparr>) st)"

text \<open>DELETE /cart/clear.\<close>

definition clear :: "request \<Rightarrow> store \<Rightarrow> store \<times> response" where
  "clear req st =
     (case find_cart req st of
        None \<Rightarrow> (st, Inl NotFound)
      | Some cart \<Rightarrow> save_and_respond False (cart\<lparr>items := []\<rparr>) st)"

text \<open>The body of the \<^verbatim>\<open>forEach\<close> of POST /cart/merge, and the loop.\<close>

definition merge_item :: "cart_item list \<Rightarrow> cart_item \<Rightarrow> cart_item list" where
  "merge_item uits gItem =
     (case findIndex (\<lambda>item. name item = name gItem) uits of
        Some i \<Rightarrow> add_quantity i (quantity gItem) uits
      | None \<Rightarrow> uits @ [gItem])"

definition merge_items :: "cart_item list \<Rightarrow> cart_item list \<Rightarrow> cart_item list" where
  "merge_items uits gits = foldl merge_item uits gits"

text \<open>POST /cart/merge. \<^verbatim>\<open>!sessionId\<close> holds of a missing and of an empty string.\<close>

definition merge :: "request \<Rightarrow> store \<Rightarrow> store \<times> response" where
  "merge req st =
     (case (body_user req, body_sessionId req) of
        (Some u, Some s) \<Rightarrow>
          if s = [] then (st, Inl BadRequest)
          else
            (case findOne (by_session (Some s)) st of
               None \<Rightarrow> (st, Inr NoData)
             | Some guestCart \<Rightarrow>
                 (case findOne (by_user u) st of
                    None \<Rightarrow>
                      save_and_respond False (guestCart\<lparr>user := Some u, sessionId := None\<rparr>) st
                  | Some userCart \<Rightarrow>
                      (case save False
                              (userCart\<lparr>items := merge_items (items userCart) (items guestCart)\<rparr>) st of
                         None \<Rightarrow> (st, Inl ServerError)
                       | Some (st', c') \<Rightarrow>
                           (st'\<lparr>carts := deleteOne (cart_id guestCart) (carts st')\<rparr>,
                            Inr (CartDoc c')))))
      | _ \<Rightarrow> (st, Inl BadRequest))"

text \<open>POST /cart/checkout.\<close>

definition checkout :: "request \<Rightarrow> store \<Rightarrow> store \<times> response" where
  "checkout req st =
     (case find_cart req st of
        None \<Rightarrow> (st, Inl NotFound)
      | Some cart \<Rightarrow> save_and_respond False (cart\<lparr>status := Ordered\<rparr>) st)"

text \<open>The routes of the router, and a run of requests from a collection.\<close>

datatype route = CartAdd | CartGet | CartUpdate | CartRemove | CartClear | CartMerge | CartCheckout

fun handle :: "route \<Rightarrow> request \<Rightarrow> store \<Rightarrow> store \<times> response" where
  "handle CartAdd = addItem"
| "handle CartGet = getCart"
| "handle CartUpdate = updateQuantity"
| "handle CartRemove = removeItem"
| "handle CartClear = clear"
| "handle CartMerge = merge"
| "handle CartCheckout = checkout"

fun run :: "(route \<times> request) list \<Rightarrow> store \<Rightarrow> store" where
  "run [] st = st"
| "run ((r, req) # rest) st = run rest (fst (handle r req st))"

subsection \<open>Properties of a collection\<close>

text \<open>
  A stored cart is well formed when it passes the schema validation, no two of its
  lines share a name and its total is the one the pre-save hook computes, unless that is
  NaN; a collection is well formed when its ids are distinct, below the next fresh id,
  and its carts are well formed.
\<close>

definition distinct_names :: "cart_item list \<Rightarrow> bool" where
  "distinct_names its \<longleftrightarrow> distinct (map name its)"

definition wf_cart :: "cart \<Rightarrow> bool" where
  "wf_cart c \<longleftrightarrow>
     validate c \<and> distinct_names (items c) \<and>
     (items_total (items c) = NaN \<or> totalPrice c = items_total (items c))"

definition wf_store :: "store \<Rightarrow> bool" where
  "wf_store st \<longleftrightarrow>
     distinct (map cart_id (carts st)) \<and>
     list_all (\<lambda>c. cart_id c < next_id st \<and> wf_cart c) (carts st)"

definition owner_key :: "cart \<Rightarrow> nat option" where
  "owner_key c = (if status c = Active then user c else None)"

definition session_key :: "cart \<Rightarrow> string option" where
  "session_key c = (if status c = Active then sessionId c else None)"

definition unique_active_owner :: "store \<Rightarrow> bool" where
  "unique_active_owner st \<longleftrightarrow> distinct (List.map_filter owner_key (carts st))"

definition unique_active_session :: "store \<Rightarrow> bool" where
  "unique_active_session st \<longleftrightarrow> distinct (List.map_filter session_key (carts st))"

definition exclusive_key :: "cart \<Rightarrow> bool" where
  "exclusive_key c \<longleftrightarrow> (user c = None) \<noteq> (sessionId c = None)"

definition cart_invariant :: "store \<Rightarrow> bool" where
  "cart_invariant st \<longleftrightarrow>
     list_all exclusive_key (carts st) \<and> unique_active_owner st \<and> unique_active_session st"

text \<open>The filter a handler uses to look its cart up, as one predicate.\<close>

definition key_filter :: "request \<Rightarrow> cart \<Rightarrow> bool" where
  "key_filter req =
     (case body_user req of
        Some u \<Rightarrow> by_user u
      | None \<Rightarrow> by_session (body_sessionId req))"

text \<open>The quantity of the first line of a name, if there is one.\<close>

definition quantity_of :: "string \<Rightarrow> cart_item list \<Rightarrow> number option" where
  "quantity_of n its = map_option quantity (List.find (\<lambda>item. name item = n) its)"

text \<open>
  The sum of price times quantity in exact arithmetic, of finite numbers; lines whose
  prices and quantities are integers, and whose products add up, in absolute value, to at
  most \<open>2 ^ 53\<close>, up to where every integer is a double.
\<close>

definition exact_total :: "cart_item list \<Rightarrow> rat" where
  "exact_total its = (\<Sum>item\<leftarrow>its. rat_of (price item) * rat_of (quantity item))"

definition safe_lines :: "cart_item list \<Rightarrow> bool" where
  "safe_lines its \<longleftrightarrow>
     list_all (\<lambda>item. is_integer (price item) \<and> is_integer (quantity item)) its \<and>
     (\<Sum>item\<leftarrow>its. \<bar>rat_of (price item) * rat_of (quantity item)\<bar>) \<le> 2 ^ 53"

subsection \<open>Example requests and documents\<close>

text \<open>
  A request body with the given user, session, item name, price and quantity, and no
  image; a body that carries the keys only; a line without an image; the cart that \<^verbatim>\<open>{sessionId: "s1", name: "Pen", price: 2, quantity: q}\<close>
  leaves in an empty collection.
\<close>

definition request_of :: "nat option \<Rightarrow> string option \<Rightarrow> string \<Rightarrow> rat \<Rightarrow> int \<Rightarrow> request" where
  "request_of u s n p q =
     \<lparr>body_user = u, body_sessionId = s, body_name = Some n, body_price = Some (Finite p),
      body_image = None, body_quantity = QNumber (Finite (of_int q))\<rparr>"

definition key_request :: "nat option \<Rightarrow> string option \<Rightarrow> request" where
  "key_request u s =
     \<lparr>body_user = u, body_sessionId = s, body_name = None, body_price = None,
      body_image = None, body_quantity = QUndefined\<rparr>"

definition line_of :: "string \<Rightarrow> rat \<Rightarrow> int \<Rightarrow> cart_item" where
  "line_of n p q =
     \<lparr>name = n, price = Finite p, image_url = None, quantity = Finite (of_int q)\<rparr>"

definition pen_request :: "int \<Rightarrow> request" where
  "pen_request q = request_of None (Some ''s1'') ''Pen'' 2 q"

definition pen_cart :: "int \<Rightarrow> cart" where
  "pen_cart q =
     \<lparr>cart_id = 0, user = None,
      items = [line_of ''Pen'' 2 q],
      totalPrice = Finite (2 * of_int q), status = Active, sessionId = Some ''s1''\<rparr>"

definition pen_store :: "int \<Rightarrow> store" where
  "pen_store q = \<lparr>carts = [pen_cart q], next_id = 1\<rparr>"

text \<open>
  The cart that \<^verbatim>\<open>{sessionId: "s1", name: "Pen", price: 0.1, quantity: 3}\<close> leaves in an
  empty collection; the price is the double nearest to 1/10.
\<close>

definition tenth_cart :: cart where
  "tenth_cart =
     \<lparr>cart_id = 0, user = None,
      items = [line_of ''Pen'' (3602879701896397 / 36028797018963968) 3],
      totalPrice = Finite (1351079888211149 / 4503599627370496),
      status = Active, sessionId = Some ''s1''\<rparr>"

text \<open>
  Collections built by requests from the empty one: a guest cart of session \<^verbatim>\<open>s1\<close>
  and a cart of user 7 that both hold \<^verbatim>\<open>Pen\<close>, added at the prices \<open>pg\<close> and
  \<open>pu\<close>; a guest cart and a user cart that share one name of two each; a guest cart
  of session \<^verbatim>\<open>s1\<close> and a cart made by a request that carries user 7 and the same
  session.
\<close>

definition mixed_price_store :: "rat \<Rightarrow> rat \<Rightarrow> store" where
  "mixed_price_store pg pu =
     run [(CartAdd, request_of None (Some ''s1'') ''Pen'' pg 1),
          (CartAdd, request_of (Some 7) None ''Pen'' pu 1)] empty_store"

definition two_cart_store :: store where
  "two_cart_store =
     run [(CartAdd, request_of None (Some ''s1'') ''Pen'' 2 3),
          (CartAdd, request_of None (Some ''s1'') ''Ink'' 4 1),
          (CartAdd, request_of (Some 7) None ''Pen'' 2 2),
          (CartAdd, request_of (Some 7) None ''Cap'' 1 1)] empty_store"

definition shared_session_store :: store where
  "shared_session_store =
     run [(CartAdd, pen_request 3),
          (CartAdd, request_of (Some 7) (Some ''s1'') ''Pen'' 2 2)] empty_store"

text \<open>A guest cart with one \<^verbatim>\<open>Pen\<close> and a cart of user 7 with \<open>2 ^ 53\<close> of them.\<close>

definition large_quantity_store :: store where
  "large_quantity_store =
     run [(CartAdd, request_of None (Some ''s1'') ''Pen'' 1 1),
          (CartAdd, request_of (Some 7) None ''Pen'' 1 9007199254740992)] empty_store"

text \<open>A collection with an ordered guest cart and an active cart of user 7.\<close>

definition ordered_store :: store where
  "ordered_store =
     run [(CartAdd, pen_request 3),
          (CartCheckout, key_request None (Some ''s1'')),
          (CartAdd, request_of (Some 7) None ''Pen'' 2 3)] empty_store"

section \<open>Rounding\<close>

lemma round_half_even_of_int [simp]: "round_half_even (of_int k) = k"
  by (simp add: round_half_even_def)

lemma round_half_even_ge_floor: "\<lfloor>x\<rfloor> \<le> round_half_even x"
  by (simp add: round_half_even_def Let_def)

lemma floor_log_2_bounds:
  assumes "1 \<le> x"
  shows "0 \<le> floor_log 2 x" and "2 powi (floor_log 2 x) \<le> x" and "x < 2 powi (floor_log 2 x + 1)"
proof -
  let ?N = "nat \<lfloor>x\<rfloor>"
  from assms have N: "0 < ?N" by simp
  from floorlog_bounds[OF N, of 2] have b: "2 ^ (floorlog 2 ?N - 1) \<le> ?N" "?N < 2 ^ floorlog 2 ?N"
    by simp_all
  from N have f1: "1 \<le> floorlog 2 ?N"
    by (metis One_nat_def Suc_leI floorlog_eq_zero_iff gr0I not_less one_less_numeral_iff semiring_norm(76) less_numeral_extra(3))
  have e: "floor_log 2 x = int (floorlog 2 ?N - 1)"
    using assms f1 by (simp add: floor_log_def)
  show "0 \<le> floor_log 2 x" by (simp add: e)
  have "(2::rat) ^ (floorlog 2 ?N - 1) \<le> of_nat ?N"
    using b(1) by (metis of_nat_le_iff of_nat_numeral of_nat_power)
  also have "\<dots> = of_int \<lfloor>x\<rfloor>" using assms by simp
  also have "\<dots> \<le> x" by simp
  finally show "2 powi (floor_log 2 x) \<le> x" by (simp add: e)
  have "\<lfloor>x\<rfloor> < 2 ^ floorlog 2 ?N"
    using b(2) assms by (metis nat_less_iff of_nat_numeral of_nat_power zero_le_floor zero_le_one order_trans)
  then have "x < of_int (2 ^ floorlog 2 ?N)"
    by (simp add: floor_less_iff)
  moreover have "floor_log 2 x + 1 = int (floorlog 2 ?N)" using f1 by (simp add: e)
  ultimately show "x < 2 powi (floor_log 2 x + 1)" by simp
qed

lemma round_double_ge1:
  assumes "1 \<le> x"
  shows "ge1 (round_double x)"
proof -
  let ?e = "floor_log 2 x"
  let ?E = "?e - 52"
  from floor_log_2_bounds[OF assms] have e0: "0 \<le> ?e" and lo: "2 powi ?e \<le> x" by simp_all
  have E: "max (?e - 52) (- 1074) = ?E" using e0 by simp
  have p: "(0::rat) < 2 powi ?E" by simp
  have "(2::rat) ^ 52 = 2 powi ?e / 2 powi ?E"
    by (simp add: power_int_diff [symmetric])
  also have "\<dots> \<le> x / 2 powi ?E"
    using lo p by (simp add: divide_right_mono)
  finally have "(2::int) ^ 52 \<le> \<lfloor>x / 2 powi ?E\<rfloor>"
    by (simp add: le_floor_iff)
  with round_half_even_ge_floor[of "x / 2 powi ?E"]
  have n: "(2::int) ^ 52 \<le> round_half_even (x / 2 powi ?E)" by linarith
  have "(1::rat) \<le> 2 powi ?e" using e0 by simp
  also have "\<dots> = 2 ^ 52 * 2 powi ?E"
    by (simp add: power_int_diff)
  also have "\<dots> \<le> of_int (round_half_even (x / 2 powi ?E)) * 2 powi ?E"
  proof (rule mult_right_mono)
    from n have "(of_int ((2::int) ^ 52) :: rat) \<le> of_int (round_half_even (x / 2 powi ?E))"
      by (simp only: of_int_le_iff)
    then show "(2::rat) ^ 52 \<le> of_int (round_half_even (x / 2 powi ?E))" by simp
    show "(0::rat) \<le> 2 powi ?E" by simp
  qed
  finally have "(1::rat) \<le> of_int (round_half_even (x / 2 powi ?E)) * 2 powi ?E" .
  with assms E show ?thesis
    by (simp add: round_double_def Let_def)
qed

lemma round_double_minus:
  "round_double (- x) = (case round_double x of Finite r \<Rightarrow> Finite (- r) | PosInf \<Rightarrow> NegInf
                         | NegInf \<Rightarrow> PosInf | NaN \<Rightarrow> NaN)"
  by (cases "0 < x"; cases "x = 0") (auto simp: round_double_def Let_def)

lemma round_double_of_nat_exact:
  assumes "0 < n" and "n \<le> 2 ^ 53"
  shows "round_double (of_int n) = Finite (of_int n)"
proof -
  let ?x = "of_int n :: rat"
  let ?e = "floor_log 2 ?x"
  have x1: "1 \<le> ?x" using assms(1) by simp
  from floor_log_2_bounds[OF x1] have e0: "0 \<le> ?e" and lo: "2 powi ?e \<le> ?x"
    and hi: "?x < 2 powi (?e + 1)" by simp_all
  have E: "max (?e - 52) (- 1074) = ?e - 52" using e0 by simp
  have e53: "?e \<le> 53"
  proof (rule ccontr)
    assume "\<not> ?e \<le> 53"
    then have "54 \<le> ?e" by simp
    then have "(2::rat) powi 54 \<le> 2 powi ?e" by (intro power_int_increasing) simp_all
    with lo have "(2::rat) ^ 54 \<le> of_int n" by simp
    moreover from assms(2) have "(of_int n :: rat) \<le> 2 ^ 53"
      by (metis of_int_le_iff of_int_numeral of_int_power)
    ultimately show False by simp
  qed
  have r: "of_int (round_half_even (?x / 2 powi (?e - 52))) * 2 powi (?e - 52) = ?x"
  proof (cases "?e \<le> 52")
    case True
    then obtain k :: nat where k: "?e - 52 = - int k"
      by (metis diff_le_0_iff_le minus_minus nonneg_int_cases neg_le_0_iff_le)
    have "?x / 2 powi (?e - 52) = of_int (n * 2 ^ k)"
      by (simp add: k power_int_minus field_simps)
    then have "of_int (round_half_even (?x / 2 powi (?e - 52))) = (of_int (n * 2 ^ k) :: rat)"
      by (simp only: round_half_even_of_int)
    then show ?thesis
      by (simp add: k power_int_minus field_simps)
  next
    case False
    with e53 have e: "?e = 53" by simp
    from lo e have "(2::rat) ^ 53 \<le> of_int n" by simp
    moreover from assms(2) have "(of_int n :: rat) \<le> 2 ^ 53"
      by (metis of_int_le_iff of_int_numeral of_int_power)
    ultimately have n: "(of_int n :: rat) = 2 ^ 53" by simp
    have "?x / 2 powi (?e - 52) = of_int (2 ^ 52)"
      by (simp only: e) (simp add: n)
    then have "of_int (round_half_even (?x / 2 powi (?e - 52))) = (of_int (2 ^ 52) :: rat)"
      by (simp only: round_half_even_of_int)
    then show ?thesis
      by (simp only: e) (simp add: n)
  qed
  have "?x < 2 ^ 1024"
  proof -
    from assms(2) have "(of_int n :: rat) \<le> 2 ^ 53"
      by (metis of_int_le_iff of_int_numeral of_int_power)
    also have "\<dots> < 2 ^ 1024" by (simp add: power_strict_increasing)
    finally show ?thesis .
  qed
  with assms(1) E r show ?thesis
    by (simp add: round_double_def Let_def)
qed

lemma round_double_of_int_exact:
  assumes "\<bar>n\<bar> \<le> 2 ^ 53"
  shows "round_double (of_int n) = Finite (of_int n)"
proof -
  consider "n = 0" | "0 < n" | "n < 0" by linarith
  then show ?thesis
  proof cases
    case 1
    then show ?thesis by (simp add: round_double_def)
  next
    case 2
    with assms show ?thesis by (simp add: round_double_of_nat_exact)
  next
    case 3
    with assms have "round_double (of_int (- n)) = Finite (of_int (- n))"
      by (intro round_double_of_nat_exact) simp_all
    then show ?thesis
      using round_double_minus[of "of_int n"] by (simp split: number.splits)
  qed
qed

lemma ge1_js_add: "ge1 a \<Longrightarrow> ge1 b \<Longrightarrow> ge1 (js_add a b)"
proof (cases a; cases b)
  fix x y assume "a = Finite x" "b = Finite y" "ge1 a" "ge1 b"
  then show "ge1 (js_add a b)"
    by (simp add: round_double_ge1)
qed simp_all

lemma is_integer_iff: "is_integer x \<longleftrightarrow> (\<exists>n. x = Finite (of_int n))"
  by (cases x) (auto intro: exI[of _ "\<lfloor>u\<rfloor>" for u])

lemma js_add_exact:
  assumes "is_integer a" and "is_integer b" and "\<bar>rat_of a + rat_of b\<bar> \<le> 2 ^ 53"
  shows "js_add a b = Finite (rat_of a + rat_of b)"
proof -
  from assms(1,2) obtain m n where mn: "a = Finite (of_int m)" "b = Finite (of_int n)"
    by (auto simp: is_integer_iff)
  with assms(3) have "(of_int \<bar>m + n\<bar> :: rat) \<le> of_int (2 ^ 53)" by simp
  then have "\<bar>m + n\<bar> \<le> 2 ^ 53" by (simp only: of_int_le_iff)
  from round_double_of_int_exact[OF this] mn show ?thesis by simp
qed

lemma js_mul_exact:
  assumes "is_integer a" and "is_integer b" and "\<bar>rat_of a * rat_of b\<bar> \<le> 2 ^ 53"
  shows "js_mul a b = Finite (rat_of a * rat_of b)"
proof -
  from assms(1,2) obtain m n where mn: "a = Finite (of_int m)" "b = Finite (of_int n)"
    by (auto simp: is_integer_iff)
  with assms(3) have "(of_int \<bar>m * n\<bar> :: rat) \<le> of_int (2 ^ 53)" by simp
  then have "\<bar>m * n\<bar> \<le> 2 ^ 53" by (simp only: of_int_le_iff)
  from round_double_of_int_exact[OF this] mn show ?thesis by simp
qed

lemma js_parseInt_of_int:
  assumes "\<bar>n\<bar> < 10 ^ 21"
  shows "js_parseInt (Finite (of_int n)) = Finite (of_int n)"
proof (cases "n = 0")
  case True
  then show ?thesis by (simp add: js_parseInt_def)
next
  case False
  then have "1 \<le> \<bar>n\<bar>" by simp
  then have "(of_int 1 :: rat) \<le> of_int \<bar>n\<bar>" by (simp only: of_int_le_iff)
  then have a: "(1::rat) \<le> \<bar>of_int n\<bar>" by simp
  from assms have "(of_int \<bar>n\<bar> :: rat) < of_int (10 ^ 21)" by (simp only: of_int_less_iff)
  then have b: "\<bar>of_int n :: rat\<bar> < 10 ^ 21" by simp
  have "\<lfloor>\<bar>of_int n :: rat\<bar>\<rfloor> = \<bar>n\<bar>" by (metis floor_of_int of_int_abs)
  with False a b show ?thesis
    by (auto simp: js_parseInt_def Let_def)
qed

text \<open>A number within the normal range, between two powers of two.\<close>

lemma floor_log_2_bounds_small:
  assumes "0 < x" and "x < 1"
  shows "2 powi (floor_log 2 x) \<le> x" and "x < 2 powi (floor_log 2 x + 1)"
proof -
  define y where "y = 1 / x"
  define N where "N = nat (\<lceil>y\<rceil> - 1)"
  define k where "k = floorlog 2 N"
  from assms have y1: "1 < y" by (simp add: y_def)
  then have c2: "2 \<le> \<lceil>y\<rceil>" by (simp add: le_ceiling_iff)
  then have N: "0 < N" by (simp add: N_def)
  from c2 have "0 \<le> \<lceil>y\<rceil> - 1" by linarith
  then have "(of_nat N :: rat) = of_int (\<lceil>y\<rceil> - 1)" unfolding N_def by (rule of_nat_nat)
  then have Nc: "(of_nat N :: rat) = of_int \<lceil>y\<rceil> - 1" by (simp only: of_int_diff of_int_1)
  have Ny: "of_nat N < y" using ceiling_correct[of y] by (simp only: Nc)
  have yN: "y \<le> of_nat N + 1" using ceiling_correct[of y] by (simp only: Nc) simp
  from floorlog_bounds[OF N, of 2] have b: "2 ^ (k - 1) \<le> N" "N < 2 ^ k"
    by (simp_all add: k_def)
  have k1: "1 \<le> k"
  proof (rule ccontr)
    assume "\<not> 1 \<le> k"
    then have "k = 0" by simp
    with b(2) N show False by simp
  qed
  have e: "floor_log 2 x = - int k"
    using assms by (simp add: floor_log_def k_def N_def y_def)
  from b(2) have "N + 1 \<le> 2 ^ k" by simp
  then have "(of_nat (N + 1) :: rat) \<le> of_nat (2 ^ k)" by (simp only: of_nat_le_iff)
  then have "(of_nat N :: rat) + 1 \<le> 2 ^ k" by simp
  with yN have "y \<le> 2 ^ k" by linarith
  with assms(1) have "1 \<le> 2 ^ k * x" by (simp add: y_def field_simps)
  then have "1 / 2 ^ k \<le> x" by (simp add: field_simps)
  then show "2 powi (floor_log 2 x) \<le> x"
    by (simp add: e power_int_minus field_simps)
  from b(1) have "(of_nat (2 ^ (k - 1)) :: rat) \<le> of_nat N" by (simp only: of_nat_le_iff)
  then have "(2::rat) ^ (k - 1) \<le> of_nat N" by simp
  with Ny have "(2::rat) ^ (k - 1) < y" by linarith
  with assms(1) have "2 ^ (k - 1) * x < 1" by (simp add: y_def field_simps)
  then have "x < 1 / 2 ^ (k - 1)" by (simp add: field_simps)
  moreover have "floor_log 2 x + 1 = - int (k - 1)" using k1 by (simp add: e)
  ultimately show "x < 2 powi (floor_log 2 x + 1)"
    by (simp add: power_int_minus field_simps)
qed

lemma floor_log_2_eq:
  assumes "2 powi e \<le> x" and "x < 2 powi (e + 1)"
  shows "floor_log 2 x = e"
proof -
  have "(0::rat) < 2 powi e" by simp
  with assms(1) have x: "0 < x" by linarith
  let ?f = "floor_log 2 x"
  have b: "2 powi ?f \<le> x \<and> x < 2 powi (?f + 1)"
  proof (cases "1 \<le> x")
    case True
    from floor_log_2_bounds[OF this] show ?thesis by simp
  next
    case False
    with x floor_log_2_bounds_small[of x] show ?thesis by simp
  qed
  have lt: "i < j" if "(2::rat) powi i < 2 powi j" for i j :: int
  proof (rule ccontr)
    assume "\<not> i < j"
    then have "(2::rat) powi j \<le> 2 powi i" by (intro power_int_increasing) simp_all
    with that show False by simp
  qed
  from b assms(2) have "(2::rat) powi ?f < 2 powi (e + 1)" by linarith
  then have 1: "?f < e + 1" by (rule lt)
  from b assms(1) have "(2::rat) powi e < 2 powi (?f + 1)" by linarith
  then have 2: "e < ?f + 1" by (rule lt)
  from 1 2 show ?thesis by simp
qed

lemma round_half_even_le:
  assumes "x \<le> of_int n"
  shows "round_half_even x \<le> n"
proof -
  let ?f = "\<lfloor>x\<rfloor>"
  have "of_int ?f \<le> x" by simp
  with assms have "(of_int ?f :: rat) \<le> of_int n" by linarith
  then have f: "?f \<le> n" by (simp only: of_int_le_iff)
  have "?f + 1 \<le> n" if "0 < x - of_int ?f"
  proof -
    from that assms have "of_int ?f < (of_int n :: rat)" by linarith
    then have "?f < n" by (simp only: of_int_less_iff)
    then show ?thesis by simp
  qed
  with f show ?thesis
    unfolding round_half_even_def Let_def by auto
qed

lemma round_double_normal:
  assumes "2 powi e \<le> x" and "x < 2 powi (e + 1)" and "- 1022 \<le> e" and "e \<le> 1022"
  shows "round_double x = Finite (of_int (round_half_even (x / 2 powi (e - 52))) * 2 powi (e - 52))"
proof -
  have "(0::rat) < 2 powi e" by simp
  with assms(1) have x: "0 < x" by linarith
  let ?n = "round_half_even (x / 2 powi (e - 52))"
  have f: "floor_log 2 x = e" using assms(1,2) by (rule floor_log_2_eq)
  have E: "max (e - 52) (- 1074) = e - 52" using assms(3) by simp
  have "x / 2 powi (e - 52) < 2 powi (e + 1) / 2 powi (e - 52)"
    using assms(2) by (simp add: divide_strict_right_mono)
  also have "\<dots> = 2 ^ 53" by (simp add: power_int_diff [symmetric])
  finally have "x / 2 powi (e - 52) \<le> of_int (2 ^ 53)" by simp
  then have "?n \<le> 2 ^ 53" by (rule round_half_even_le)
  then have "(of_int ?n :: rat) \<le> of_int (2 ^ 53)" by (simp only: of_int_le_iff)
  then have "(of_int ?n :: rat) * 2 powi (e - 52) \<le> 2 ^ 53 * 2 powi (e - 52)"
    by (intro mult_right_mono) simp_all
  also have "\<dots> = 2 powi (e + 1)" by (simp add: power_int_diff power_int_add)
  also have "\<dots> \<le> 2 powi 1023" using assms(4) by (intro power_int_increasing) simp_all
  also have "\<dots> < 2 ^ 1024" by (simp add: power_strict_increasing)
  finally have "\<not> 2 ^ 1024 \<le> (of_int ?n :: rat) * 2 powi (e - 52)" by simp
  with x f E show ?thesis
    by (simp add: round_double_def Let_def)
qed

text \<open>The doubles of the examples: 0.1, three times 0.1, the integers around \<open>2 ^ 53\<close>.\<close>

lemma floor_rat_numeral: "\<lfloor>numeral a / numeral b :: rat\<rfloor> = numeral a div numeral b"
  using floor_divide_of_int_eq[of "numeral a" "numeral b", where ?'a = rat] by simp

lemmas round_evals = round_half_even_def floor_rat_numeral Let_def

lemma round_double_tenth: "round_double (1 / 10) = Finite (3602879701896397 / 36028797018963968)"
  using round_double_normal[of "- 4" "1 / 10"]
  by (simp add: round_evals)

lemma round_double_three_tenths:
  "round_double (10808639105689191 / 36028797018963968) = Finite (1351079888211149 / 4503599627370496)"
  using round_double_normal[of "- 2" "10808639105689191 / 36028797018963968"]
  by (simp add: round_evals)

lemma round_double_three_tenths_double:
  "round_double (1351079888211149 / 4503599627370496) = Finite (1351079888211149 / 4503599627370496)"
  using round_double_normal[of "- 2" "1351079888211149 / 4503599627370496"]
  by (simp add: round_evals)

lemma round_double_absorb: "round_double 9007199254740993 = Finite 9007199254740992"
  using round_double_normal[of 53 9007199254740993]
  by (simp add: round_evals)

lemma round_double_2_54: "round_double 18014398509481984 = Finite 18014398509481984"
  using round_double_normal[of 54 18014398509481984]
  by (simp add: round_evals)

lemma round_double_2e21: "round_double 2000000000000000000000 = Finite 2000000000000000000000"
  using round_double_normal[of 70 2000000000000000000000]
  by (simp add: round_evals)

lemma floorlog_1e21: "floorlog 10 1000000000000000000000 = 22"
  by (simp add: compute_floorlog)

lemma js_parseInt_1e21: "js_parseInt (Finite 1000000000000000000000) = Finite 1"
  by (simp add: js_parseInt_def shortest_lead_def floor_log_def floorlog_1e21 round_double_2e21 Let_def)

text \<open>Evaluating the arithmetic on the small integers of the examples.\<close>

lemma round_double_numeral:
  "numeral k \<le> (2::int) ^ 53 \<Longrightarrow> round_double (numeral k) = Finite (numeral k)"
  using round_double_of_int_exact[of "numeral k"] by simp

lemma round_double_0_1: "round_double 0 = Finite 0" "round_double 1 = Finite 1"
  using round_double_of_int_exact[of 0] round_double_of_int_exact[of 1] by simp_all

lemma js_parseInt_numeral:
  "numeral k < (10::int) ^ 21 \<Longrightarrow> js_parseInt (Finite (numeral k)) = Finite (numeral k)"
  using js_parseInt_of_int[of "numeral k"] by simp

lemma js_parseInt_1: "js_parseInt (Finite 1) = Finite 1"
  using js_parseInt_of_int[of 1] by simp

lemmas number_evals = round_double_numeral round_double_0_1 js_parseInt_numeral js_parseInt_1
  parseInt_quantity_def requested_quantity_def

section \<open>Lists and the collection\<close>

lemma findIndex_None_iff: "findIndex p xs = None \<longleftrightarrow> (\<forall>x\<in>set xs. \<not> p x)"
  by (induction xs) auto

lemma findIndex_Some: "findIndex p xs = Some i \<Longrightarrow> i < length xs \<and> p (xs ! i) \<and> (\<forall>j<i. \<not> p (xs ! j))"
proof (induction xs arbitrary: i)
  case Nil
  then show ?case by simp
next
  case (Cons x xs)
  show ?case
  proof (cases "p x")
    case True
    with Cons.prems show ?thesis by simp
  next
    case False
    with Cons.prems obtain k where k: "findIndex p xs = Some k" "i = Suc k"
      by auto
    from Cons.IH[OF k(1)] False k(2) show ?thesis
      by (auto simp: nth_Cons split: nat.splits)
  qed
qed

lemma update_first_ids: "map cart_id (update_first c ds) = map cart_id ds"
  by (induction ds) auto

lemma update_first_length: "length (update_first c ds) = length ds"
  by (induction ds) auto

lemma update_first_set: "set (update_first c ds) \<subseteq> insert c (set ds)"
  by (induction ds) auto

lemma update_first_mem: "c \<in> set (update_first c ds) \<Longrightarrow> c \<in> set ds \<or> cart_id c \<in> cart_id ` set ds"
  by (induction ds) (auto split: if_splits)

lemma update_first_absent: "cart_id c \<notin> cart_id ` set ds \<Longrightarrow> update_first c ds = ds"
  by (induction ds) auto

lemma update_first_present:
  "distinct (map cart_id ds) \<Longrightarrow> d \<in> set ds \<Longrightarrow> cart_id d = cart_id c \<Longrightarrow>
   set (update_first c ds) = insert c (set ds - {d})"
  by (induction ds) (auto simp: update_first_absent image_iff)

lemma deleteOne_set: "set (deleteOne i ds) \<subseteq> set ds"
  by (induction ds) auto

lemma deleteOne_ids: "distinct (map cart_id ds) \<Longrightarrow> distinct (map cart_id (deleteOne i ds))"
proof (induction ds)
  case Nil
  then show ?case by simp
next
  case (Cons d ds)
  with deleteOne_set[of i ds] show ?case by auto
qed

lemma deleteOne_gone: "distinct (map cart_id ds) \<Longrightarrow> i \<notin> cart_id ` set (deleteOne i ds)"
proof (induction ds)
  case Nil
  then show ?case by simp
next
  case (Cons d ds)
  with deleteOne_set[of i ds] show ?case by auto
qed

lemma deleteOne_others: "d \<in> set ds \<Longrightarrow> cart_id d \<noteq> i \<Longrightarrow> d \<in> set (deleteOne i ds)"
  by (induction ds) auto

lemma items_total_foldl_exact:
  assumes "list_all (\<lambda>item. is_integer (price item) \<and> is_integer (quantity item)) its"
    and "\<bar>of_int a :: rat\<bar> + (\<Sum>item\<leftarrow>its. \<bar>rat_of (price item) * rat_of (quantity item)\<bar>) \<le> 2 ^ 53"
  shows "foldl (\<lambda>acc item. js_add acc (js_mul (price item) (quantity item))) (Finite (of_int a)) its =
         Finite (of_int a + (\<Sum>item\<leftarrow>its. rat_of (price item) * rat_of (quantity item)))"
  using assms
proof (induction its arbitrary: a)
  case Nil
  then show ?case by simp
next
  case (Cons x xs)
  let ?rest = "\<Sum>item\<leftarrow>xs. \<bar>rat_of (price item) * rat_of (quantity item)\<bar>"
  from Cons.prems(1) obtain m n where mn: "price x = Finite (of_int m)" "quantity x = Finite (of_int n)"
    by (auto simp: is_integer_iff)
  have rest: "0 \<le> ?rest" by (auto intro!: sum_list_nonneg)
  from Cons.prems(2) mn have b: "\<bar>of_int a :: rat\<bar> + \<bar>of_int (m * n)\<bar> + ?rest \<le> 2 ^ 53"
    by simp
  with rest have "\<bar>of_int (m * n) :: rat\<bar> \<le> 2 ^ 53" by linarith
  with mn have p: "js_mul (price x) (quantity x) = Finite (of_int (m * n))"
    using js_mul_exact[of "price x" "quantity x"] by simp
  from b rest have "\<bar>of_int a + of_int (m * n) :: rat\<bar> \<le> 2 ^ 53" by linarith
  then have s: "js_add (Finite (of_int a)) (Finite (of_int (m * n))) = Finite (of_int (a + m * n))"
    using js_add_exact[of "Finite (of_int a)" "Finite (of_int (m * n))"] by simp
  have "\<bar>of_int (a + m * n) :: rat\<bar> \<le> \<bar>of_int a\<bar> + \<bar>of_int (m * n)\<bar>"
    by (simp only: of_int_add abs_triangle_ineq)
  with b have "\<bar>of_int (a + m * n) :: rat\<bar> + ?rest \<le> 2 ^ 53" by linarith
  with Cons.prems(1) have
    "foldl (\<lambda>acc item. js_add acc (js_mul (price item) (quantity item))) (Finite (of_int (a + m * n))) xs =
     Finite (of_int (a + m * n) + (\<Sum>item\<leftarrow>xs. rat_of (price item) * rat_of (quantity item)))"
    by (intro Cons.IH) simp_all
  with p s mn show ?case by simp
qed

lemma items_total_exact: "safe_lines its \<Longrightarrow> items_total its = Finite (exact_total its)"
  using items_total_foldl_exact[of its 0]
  by (simp add: safe_lines_def items_total_def exact_total_def)

lemma findOne_SomeD: "findOne p st = Some c \<Longrightarrow> c \<in> set (carts st) \<and> p c"
  by (auto simp: findOne_def find_Some_iff)

lemma findOne_None_iff: "findOne p st = None \<longleftrightarrow> (\<forall>c\<in>set (carts st). \<not> p c)"
  by (auto simp: findOne_def find_None_iff)

lemma find_cart_key_filter: "find_cart req st = findOne (key_filter req) st"
  by (simp add: find_cart_def key_filter_def split: option.splits)

lemma find_cart_SomeD: "find_cart req st = Some c \<Longrightarrow> c \<in> set (carts st) \<and> status c = Active"
  by (auto simp: find_cart_def by_user_def by_session_def split: option.splits dest: findOne_SomeD)

lemma key_filter_Active: "key_filter req c \<Longrightarrow> status c = Active"
  by (auto simp: key_filter_def by_user_def by_session_def split: option.splits)

lemma find_cart_None_iff: "find_cart req st = None \<longleftrightarrow> \<not> (\<exists>c\<in>set (carts st). key_filter req c)"
  by (simp add: find_cart_key_filter findOne_None_iff)

lemma list_all_update_first:
  "list_all P ds \<Longrightarrow> (\<forall>d\<in>set ds. cart_id d = cart_id c \<longrightarrow> P c) \<Longrightarrow> list_all P (update_first c ds)"
  by (induction ds) auto

lemma list_all_deleteOne: "list_all P ds \<Longrightarrow> list_all P (deleteOne i ds)"
  by (induction ds) auto

lemma pre_save_simps [simp]:
  "cart_id (pre_save c) = cart_id c" "user (pre_save c) = user c" "items (pre_save c) = items c"
  "status (pre_save c) = status c" "sessionId (pre_save c) = sessionId c"
  "totalPrice (pre_save c) =
     (if items_total (items c) = NaN then totalPrice c else items_total (items c))"
  by (simp_all add: pre_save_def Let_def)

lemma validate_pre_save [simp]: "validate (pre_save c) = validate c"
  by (simp add: validate_def)

lemma wf_cart_pre_save: "wf_cart (pre_save c) \<longleftrightarrow> validate c \<and> distinct_names (items c)"
  by (simp add: wf_cart_def)

lemma pre_save_same:
  "items_total (items c) = NaN \<or> totalPrice c = items_total (items c) \<Longrightarrow> pre_save c = c"
  by (auto simp: pre_save_def Let_def)

lemma wf_store_next_id: "wf_store st \<Longrightarrow> wf_store (st\<lparr>next_id := Suc (next_id st)\<rparr>)"
  by (auto simp: wf_store_def list_all_iff)

lemma wf_store_update:
  "wf_store st \<Longrightarrow> wf_cart c \<Longrightarrow> wf_store (st\<lparr>carts := update_first c (carts st)\<rparr>)"
  unfolding wf_store_def
  by (auto simp: update_first_ids intro!: list_all_update_first) (auto simp: list_all_iff)

lemma wf_store_insert:
  "wf_store st \<Longrightarrow> wf_cart c \<Longrightarrow> cart_id c < next_id st \<Longrightarrow> cart_id c \<notin> cart_id ` set (carts st) \<Longrightarrow>
   wf_store (st\<lparr>carts := carts st @ [c]\<rparr>)"
  unfolding wf_store_def by auto

lemma wf_store_delete:
  "wf_store st \<Longrightarrow> wf_store (st\<lparr>carts := deleteOne i (carts st)\<rparr>)"
  unfolding wf_store_def by (auto simp: deleteOne_ids list_all_deleteOne)

lemma wf_store_cart: "wf_store st \<Longrightarrow> c \<in> set (carts st) \<Longrightarrow> wf_cart c \<and> cart_id c < next_id st"
  by (auto simp: wf_store_def list_all_iff)

lemma wf_save_update:
  "wf_store st \<Longrightarrow> distinct_names (items c) \<Longrightarrow> wf_store (fst (save_and_respond False c st))"
  by (auto simp: save_and_respond_def save_def Let_def wf_cart_def intro!: wf_store_update)

lemma wf_save_insert:
  "wf_store st \<Longrightarrow> distinct_names (items c) \<Longrightarrow> cart_id c < next_id st \<Longrightarrow>
   cart_id c \<notin> cart_id ` set (carts st) \<Longrightarrow> wf_store (fst (save_and_respond True c st))"
  by (auto simp: save_and_respond_def save_def Let_def wf_cart_def intro!: wf_store_insert)

text \<open>The names of the lines under the updates of a handler.\<close>

lemma map_update_same: "f y = f (xs ! i) \<Longrightarrow> map f (xs[i := y]) = map f xs"
  by (induction xs arbitrary: i) (auto simp: nth_Cons split: nat.splits)

lemma names_add_quantity: "map name (add_quantity i n its) = map name its"
  by (simp add: add_quantity_def map_update_same)

lemma names_set_quantity: "map name (set_quantity i n its) = map name its"
  by (simp add: set_quantity_def map_update_same)

lemma names_merge_item:
  "map name (merge_item us g) =
     (if name g \<in> set (map name us) then map name us else map name us @ [name g])"
proof (cases "findIndex (\<lambda>item. name item = name g) us")
  case None
  then have "name g \<notin> set (map name us)"
    by (auto simp: findIndex_None_iff)
  with None show ?thesis
    by (simp add: merge_item_def)
next
  case (Some i)
  from findIndex_Some[OF Some] have "name g \<in> set (map name us)"
    by (metis length_map nth_map nth_mem)
  with Some show ?thesis
    by (simp add: merge_item_def names_add_quantity)
qed

lemma distinct_merge_item: "distinct_names us \<Longrightarrow> distinct_names (merge_item us g)"
  by (simp add: distinct_names_def names_merge_item)

lemma distinct_merge_items: "distinct_names us \<Longrightarrow> distinct_names (merge_items us gs)"
  unfolding merge_items_def
  by (induction gs arbitrary: us) (auto simp: distinct_merge_item)

lemma names_merge_items:
  "set (map name (merge_items us gs)) = set (map name us) \<union> set (map name gs)"
  unfolding merge_items_def
proof (induction gs arbitrary: us)
  case Nil
  then show ?case by simp
next
  case (Cons g gs)
  show ?case using Cons.IH[of "merge_item us g"] by (auto simp: names_merge_item)
qed

section \<open>Well-formedness is preserved by every handler\<close>

lemma wf_store_fresh: "wf_store st \<Longrightarrow> next_id st \<notin> cart_id ` set (carts st)"
  by (auto simp: wf_store_def list_all_iff)

lemma wf_found: "wf_store st \<Longrightarrow> find_cart req st = Some c \<Longrightarrow> distinct_names (items c)"
  using wf_store_cart[of st c] by (auto simp: wf_cart_def dest: find_cart_SomeD)

lemma wf_addItem: "wf_store st \<Longrightarrow> wf_store (fst (addItem req st))"
proof -
  assume wf: "wf_store st"
  show ?thesis
  proof (cases "find_cart req st")
    case None
    have "wf_store (fst (save_and_respond True
            (\<lparr>cart_id = next_id st, user = body_user req, items = its, totalPrice = Finite 0,
              status = Active, sessionId = body_sessionId req\<rparr>)
            (st\<lparr>next_id := Suc (next_id st)\<rparr>)))" if "distinct_names its" for its
      using wf_store_fresh[OF wf] that
      by (intro wf_save_insert wf_store_next_id wf) auto
    with None wf show ?thesis
      by (auto simp: addItem_def new_Cart_def Let_def distinct_names_def split: option.splits)
  next
    case (Some c)
    from wf_found[OF wf Some] have "distinct (map name (items c))"
      by (simp add: distinct_names_def)
    with Some wf show ?thesis
      by (auto simp: addItem_def Let_def distinct_names_def names_add_quantity findIndex_None_iff
               split: option.splits intro!: wf_save_update)
  qed
qed

lemma wf_getCart: "wf_store st \<Longrightarrow> wf_store (fst (getCart req st))"
  by (simp add: getCart_def split: option.splits)

lemma wf_updateQuantity: "wf_store st \<Longrightarrow> wf_store (fst (updateQuantity req st))"
  by (auto simp: updateQuantity_def distinct_names_def names_set_quantity split: option.splits
           intro!: wf_save_update dest: wf_found)

lemma wf_removeItem: "wf_store st \<Longrightarrow> wf_store (fst (removeItem req st))"
  by (auto simp: removeItem_def distinct_names_def distinct_map_filter split: option.splits
           intro!: wf_save_update dest: wf_found)

lemma wf_clear: "wf_store st \<Longrightarrow> wf_store (fst (clear req st))"
  by (auto simp: clear_def distinct_names_def split: option.splits intro!: wf_save_update)

lemma wf_checkout: "wf_store st \<Longrightarrow> wf_store (fst (checkout req st))"
  by (auto simp: checkout_def split: option.splits intro!: wf_save_update dest: wf_found)

lemma wf_findOne: "wf_store st \<Longrightarrow> findOne p st = Some c \<Longrightarrow> distinct_names (items c)"
  using wf_store_cart[of st c] by (auto simp: wf_cart_def dest: findOne_SomeD)

lemma wf_merge: "wf_store st \<Longrightarrow> wf_store (fst (merge req st))"
proof -
  assume wf: "wf_store st"
  have both: "wf_store (st'\<lparr>carts := deleteOne i (carts st')\<rparr>)"
    if "save False (u\<lparr>items := merge_items (items u) gits\<rparr>) st = Some (st', c')"
      and "distinct_names (items u)" for u gits st' c' i
  proof -
    from that have "wf_store (fst (save_and_respond False (u\<lparr>items := merge_items (items u) gits\<rparr>) st))"
      by (intro wf_save_update wf) (simp add: distinct_merge_items)
    with that(1) have "wf_store st'" by (simp add: save_and_respond_def)
    then show ?thesis by (rule wf_store_delete)
  qed
  show ?thesis
    using wf
    by (auto simp: merge_def split: option.splits
             intro!: wf_save_update both dest: wf_findOne)
qed

lemma wf_handle: "wf_store st \<Longrightarrow> wf_store (fst (handle r req st))"
  by (cases r) (simp_all add: wf_addItem wf_getCart wf_updateQuantity wf_removeItem wf_clear
                              wf_merge wf_checkout)

lemma wf_empty_store: "wf_store empty_store"
  by (simp add: wf_store_def empty_store_def)

lemma wf_run: "wf_store st \<Longrightarrow> wf_store (run ops st)"
  by (induction ops st rule: run.induct) (auto simp: wf_handle)

section \<open>Saving, and evaluating the examples\<close>

lemma save_and_respond_not_client_error:
  "snd (save_and_respond isNew c st) \<noteq> Inl NotFound"
  "snd (save_and_respond isNew c st) \<noteq> Inl BadRequest"
  by (simp_all add: save_and_respond_def save_def Let_def)

lemma save_and_respond_update:
  "validate c \<Longrightarrow>
   save_and_respond False c st =
     (st\<lparr>carts := update_first (pre_save c) (carts st)\<rparr>, Inr (CartDoc (pre_save c)))"
  by (simp add: save_and_respond_def save_def Let_def)



lemma save_total_store:
  "save isNew c st = Some (st', c') \<Longrightarrow> d \<in> set (carts st') \<Longrightarrow>
   d \<in> set (carts st) \<or> items_total (items d) = NaN \<or> totalPrice d = items_total (items d)"
  using update_first_set[of "pre_save c" "carts st"]
  by (auto simp: save_def Let_def split: if_splits)

lemma save_total_doc:
  "save isNew c st = Some (st', c') \<Longrightarrow>
   items_total (items c') = NaN \<or> totalPrice c' = items_total (items c')"
  by (auto simp: save_def Let_def split: if_splits)

lemma save_and_respond_total_store:
  "d \<in> set (carts (fst (save_and_respond isNew c st))) \<Longrightarrow>
   d \<in> set (carts st) \<or> items_total (items d) = NaN \<or> totalPrice d = items_total (items d)"
  by (auto simp: save_and_respond_def split: option.splits dest: save_total_store)

lemma save_and_respond_total_doc:
  "snd (save_and_respond isNew c st) = Inr (CartDoc d) \<Longrightarrow>
   items_total (items d) = NaN \<or> totalPrice d = items_total (items d)"
  by (auto simp: save_and_respond_def split: option.splits dest: save_total_doc)

lemma addItem_total_store:
  "d \<in> set (carts (fst (addItem req st))) \<Longrightarrow>
   d \<in> set (carts st) \<or> items_total (items d) = NaN \<or> totalPrice d = items_total (items d)"
  by (auto simp: addItem_def Let_def new_Cart_def split: option.splits if_splits
           dest!: save_and_respond_total_store)

lemma merge_total_store:
  "d \<in> set (carts (fst (merge req st))) \<Longrightarrow>
   d \<in> set (carts st) \<or> items_total (items d) = NaN \<or> totalPrice d = items_total (items d)"
  using deleteOne_set
  by (fastforce simp: merge_def split: option.splits if_splits
           dest: save_and_respond_total_store save_total_store)

lemma handle_total_store:
  assumes "d \<in> set (carts (fst (handle r req st)))"
  shows "d \<in> set (carts st) \<or> items_total (items d) = NaN \<or> totalPrice d = items_total (items d)"
proof (cases r)
  case CartAdd
  with assms show ?thesis using addItem_total_store by simp
next
  case CartMerge
  with assms show ?thesis using merge_total_store by simp
qed (use assms in \<open>auto simp: getCart_def updateQuantity_def removeItem_def clear_def checkout_def
          split: option.splits dest!: save_and_respond_total_store\<close>)

lemma handle_total_doc:
  "snd (handle r req st) = Inr (CartDoc d) \<Longrightarrow> r \<noteq> CartGet \<Longrightarrow>
   items_total (items d) = NaN \<or> totalPrice d = items_total (items d)"
  by (cases r)
     (auto simp: addItem_def Let_def new_Cart_def updateQuantity_def removeItem_def clear_def
                 checkout_def merge_def
           split: option.splits if_splits prod.splits
           dest: save_and_respond_total_doc save_total_doc)

lemmas example_defs = request_of_def key_request_def line_of_def pen_request_def pen_cart_def
  pen_store_def empty_store_def

lemmas handler_defs = addItem_def getCart_def updateQuantity_def removeItem_def clear_def
  merge_def checkout_def find_cart_def findOne_def by_user_def by_session_def new_Cart_def
  save_and_respond_def save_def pre_save_def validate_def valid_item_def items_total_def
  add_quantity_def set_quantity_def merge_item_def merge_items_def number_evals Let_def

lemma addItem_pen: "addItem (pen_request 3) empty_store = (pen_store 3, Inr (CartDoc (pen_cart 3)))"
  by (simp add: example_defs handler_defs)

lemma wf_pen_store: "wf_store (pen_store 3)"
  by (simp add: wf_store_def wf_cart_def distinct_names_def example_defs handler_defs)

section \<open>The total price\<close>

text \<open>
  C1. A handler leaves in the collection only carts it did not touch and carts whose
  \<open>totalPrice\<close> is what the pre-save hook computes from the items, when that is a
  Number: the sum of price times quantity taken from 0 in the order of the lines, every
  product and every partial sum rounded to the nearest double. The cart a mutating
  handler answers with has that total, and so has every cart of every collection that a
  run of requests builds from the empty one; there the total is the exact sum whenever
  prices and quantities are integers and the absolute products add up to at most
  \<open>2 ^ 53\<close>. No handler writes \<open>totalPrice\<close>: the pre-save hook is its only writer.
\<close>

theorem totalPrice_after_mutation:
  "(\<forall>c\<in>set (carts (fst (handle r req st))).
      c \<in> set (carts st) \<or>
      (items_total (items c) \<noteq> NaN \<longrightarrow> totalPrice c = items_total (items c))) \<and>
   (r \<noteq> CartGet \<and> snd (handle r req st) = Inr (CartDoc d) \<and> items_total (items d) \<noteq> NaN \<longrightarrow>
      totalPrice d = items_total (items d)) \<and>
   (\<forall>c\<in>set (carts (run ops empty_store)).
      (items_total (items c) \<noteq> NaN \<longrightarrow> totalPrice c = items_total (items c)) \<and>
      (safe_lines (items c) \<longrightarrow> totalPrice c = Finite (exact_total (items c))))"
proof (intro conjI ballI impI)
  fix c assume "c \<in> set (carts (fst (handle r req st)))"
  from handle_total_store[OF this]
  show "c \<in> set (carts st) \<or>
        (items_total (items c) \<noteq> NaN \<longrightarrow> totalPrice c = items_total (items c))"
    by blast
next
  assume "r \<noteq> CartGet \<and> snd (handle r req st) = Inr (CartDoc d) \<and> items_total (items d) \<noteq> NaN"
  then show "totalPrice d = items_total (items d)"
    using handle_total_doc[of r req st d] by blast
next
  fix c assume c: "c \<in> set (carts (run ops empty_store))"
  have "wf_store (run ops empty_store)"
    by (rule wf_run) (rule wf_empty_store)
  from wf_store_cart[OF this c]
  have t: "items_total (items c) = NaN \<or> totalPrice c = items_total (items c)"
    by (simp add: wf_cart_def)
  {
    assume "items_total (items c) \<noteq> NaN"
    with t show "totalPrice c = items_total (items c)" by blast
  }
  {
    assume "safe_lines (items c)"
    with t show "totalPrice c = Finite (exact_total (items c))"
      by (auto simp: items_total_exact)
  }
qed

theorem totalPrice_after_mutation_witness:
  "pen_cart 3 \<in> set (carts (fst (handle CartAdd (pen_request 3) empty_store))) \<and>
   pen_cart 3 \<notin> set (carts empty_store) \<and>
   CartAdd \<noteq> CartGet \<and>
   snd (handle CartAdd (pen_request 3) empty_store) = Inr (CartDoc (pen_cart 3)) \<and>
   pen_cart 3 \<in> set (carts (run [(CartAdd, pen_request 3)] empty_store)) \<and>
   safe_lines (items (pen_cart 3)) \<and>
   exact_total (items (pen_cart 3)) = 6 \<and>
   items_total (items (pen_cart 3)) = Finite 6 \<and>
   totalPrice (pen_cart 3) = Finite 6"
proof -
  have m: "pen_cart 3 \<in> set (carts (run [(CartAdd, pen_request 3)] empty_store))"
    by (simp add: addItem_pen pen_store_def)
  have s: "safe_lines (items (pen_cart 3))" "exact_total (items (pen_cart 3)) = 6"
    by (simp_all add: safe_lines_def exact_total_def example_defs)
  note t = totalPrice_after_mutation
          [of CartAdd "pen_request 3" empty_store "pen_cart 3" "[(CartAdd, pen_request 3)]"]
  have a: "items_total (items (pen_cart 3)) = Finite 6"
    by (simp add: example_defs items_total_def number_evals)
  from t m s(1) have "totalPrice (pen_cart 3) = Finite (exact_total (items (pen_cart 3)))" by blast
  with s(2) have b: "totalPrice (pen_cart 3) = Finite 6" by simp
  have e: "pen_cart 3 \<in> set (carts (fst (handle CartAdd (pen_request 3) empty_store))) \<and>
           pen_cart 3 \<notin> set (carts empty_store) \<and>
           snd (handle CartAdd (pen_request 3) empty_store) = Inr (CartDoc (pen_cart 3))"
    by (simp add: addItem_pen) (simp add: example_defs)
  from a b m s e show ?thesis by simp
qed

text \<open>
  C1, the total against the exact sum. \<^verbatim>\<open>POST /cart/add\<close> with the price 0.1 and the
  quantity 3 stores and answers a cart whose \<open>totalPrice\<close> is the double
  0.30000000000000004, which is not three times the stored price: the product is rounded.
\<close>

theorem totalPrice_rounds:
  "round_double (1 / 10) = Finite (3602879701896397 / 36028797018963968) \<and>
   addItem (request_of None (Some ''s1'') ''Pen'' (3602879701896397 / 36028797018963968) 3)
     empty_store = (\<lparr>carts = [tenth_cart], next_id = 1\<rparr>, Inr (CartDoc tenth_cart)) \<and>
   totalPrice tenth_cart = Finite (1351079888211149 / 4503599627370496) \<and>
   exact_total (items tenth_cart) = 10808639105689191 / 36028797018963968 \<and>
   totalPrice tenth_cart \<noteq> Finite (exact_total (items tenth_cart))"
proof (intro conjI)
  show "round_double (1 / 10) = Finite (3602879701896397 / 36028797018963968)"
    by (rule round_double_tenth)
  show "addItem (request_of None (Some ''s1'') ''Pen'' (3602879701896397 / 36028797018963968) 3)
     empty_store = (\<lparr>carts = [tenth_cart], next_id = 1\<rparr>, Inr (CartDoc tenth_cart))"
    by (simp add: tenth_cart_def example_defs handler_defs round_double_three_tenths
                  round_double_three_tenths_double)
  show "totalPrice tenth_cart = Finite (1351079888211149 / 4503599627370496)"
    by (simp add: tenth_cart_def)
  show e: "exact_total (items tenth_cart) = 10808639105689191 / 36028797018963968"
    by (simp add: tenth_cart_def exact_total_def line_of_def)
  show "totalPrice tenth_cart \<noteq> Finite (exact_total (items tenth_cart))"
    by (simp add: e) (simp add: tenth_cart_def)
qed

section \<open>Adding an item\<close>

text \<open>
  C4. A request that supplies the name \<^verbatim>\<open>"Pen"\<close> and the price 0 is answered with
  status 400: \<^verbatim>\<open>!price\<close> holds of the number 0 as it does of a missing price.
\<close>

theorem addItem_price_zero_BadRequest:
  "addItem \<lparr>body_user = None, body_sessionId = Some ''s1'', body_name = Some ''Pen'',
            body_price = Some (Finite 0), body_image = None,
            body_quantity = QNumber (Finite 1)\<rparr> empty_store
   = (empty_store, Inl BadRequest)"
  by (simp add: addItem_def)

lemma addItem_BadRequest_iff:
  "snd (addItem req st) = Inl BadRequest \<longleftrightarrow>
     body_name req = None \<or> body_name req = Some [] \<or>
     body_price req = None \<or> (\<exists>pr. body_price req = Some pr \<and> falsy pr)"
  by (auto simp: addItem_def Let_def split_beta save_and_respond_not_client_error
           split: option.splits)

section \<open>Reading and removing\<close>

text \<open>
  C8. \<^verbatim>\<open>GET /cart\<close> leaves the collection as it is and never answers with an
  error: when some cart of the collection matches the key's filter it answers with such
  a cart (the first one), and otherwise with the view \<^verbatim>\<open>{ items: [], totalPrice: 0 }\<close>.
\<close>

theorem getCart_never_fails:
  "fst (getCart req st) = st \<and>
   snd (getCart req st) \<noteq> Inl e \<and>
   ((\<exists>c\<in>set (carts st). key_filter req c) \<longrightarrow>
      (\<exists>c\<in>set (carts st). key_filter req c \<and> find_cart req st = Some c \<and>
         snd (getCart req st) = Inr (CartDoc c))) \<and>
   (\<not> (\<exists>c\<in>set (carts st). key_filter req c) \<longrightarrow>
      snd (getCart req st) = Inr (PlainView [] (Finite 0)))"
proof (intro conjI impI)
  show "fst (getCart req st) = st" "snd (getCart req st) \<noteq> Inl e"
    by (simp_all add: getCart_def split: option.splits)
next
  assume "\<exists>c\<in>set (carts st). key_filter req c"
  then obtain c where c: "find_cart req st = Some c"
    using find_cart_None_iff[of req st] by auto
  then have "c \<in> set (carts st)" "key_filter req c"
    by (auto simp: find_cart_key_filter dest: findOne_SomeD)
  with c show "\<exists>c\<in>set (carts st). key_filter req c \<and> find_cart req st = Some c \<and>
         snd (getCart req st) = Inr (CartDoc c)"
    by (auto simp: getCart_def)
next
  assume "\<not> (\<exists>c\<in>set (carts st). key_filter req c)"
  then have "find_cart req st = None" by (simp add: find_cart_None_iff)
  then show "snd (getCart req st) = Inr (PlainView [] (Finite 0))" by (simp add: getCart_def)
qed

theorem getCart_never_fails_witness:
  "key_filter (key_request None (Some ''s1'')) (pen_cart 3) \<and>
   snd (getCart (key_request None (Some ''s1'')) (pen_store 3)) = Inr (CartDoc (pen_cart 3)) \<and>
   \<not> key_filter (key_request None (Some ''unknown'')) (pen_cart 3) \<and>
   snd (getCart (key_request None (Some ''unknown'')) (pen_store 3)) =
     Inr (PlainView [] (Finite 0))"
proof -
  have k: "key_filter (key_request None (Some ''s1'')) (pen_cart 3)"
    "\<not> key_filter (key_request None (Some ''unknown'')) (pen_cart 3)"
    by (simp_all add: key_filter_def by_session_def example_defs)
  have f: "find_cart (key_request None (Some ''s1'')) (pen_store 3) = Some (pen_cart 3)"
    by (simp add: example_defs handler_defs)
  from k(1) have "\<exists>c\<in>set (carts (pen_store 3)). key_filter (key_request None (Some ''s1'')) c"
    by (simp add: pen_store_def)
  with getCart_never_fails[of "key_request None (Some ''s1'')" "pen_store 3"] f
  have a: "snd (getCart (key_request None (Some ''s1'')) (pen_store 3)) = Inr (CartDoc (pen_cart 3))"
    by auto
  from k(2) have "\<not> (\<exists>c\<in>set (carts (pen_store 3)). key_filter (key_request None (Some ''unknown'')) c)"
    by (simp add: pen_store_def)
  with getCart_never_fails[of "key_request None (Some ''unknown'')" "pen_store 3"]
  have b: "snd (getCart (key_request None (Some ''unknown'')) (pen_store 3)) =
             Inr (PlainView [] (Finite 0))"
    by blast
  from k a b show ?thesis by blast
qed


lemma update_first_hit: "\<exists>d\<in>set ds. cart_id d = cart_id c \<Longrightarrow> c \<in> set (update_first c ds)"
  by (induction ds) auto

lemma update_first_replaces:
  "distinct (map cart_id ds) \<Longrightarrow> d \<in> set ds \<Longrightarrow> cart_id c = cart_id d \<Longrightarrow> c \<noteq> d \<Longrightarrow>
   d \<notin> set (update_first c ds)"
  using update_first_present[of ds d c] by auto



section \<open>Lines of a cart\<close>

lemma save_and_respond_doc:
  "snd (save_and_respond isNew c st) = Inr (CartDoc c') \<Longrightarrow>
   validate c \<and> c' = pre_save c \<and>
   fst (save_and_respond isNew c st) =
     st\<lparr>carts := (if isNew then carts st @ [c'] else update_first c' (carts st))\<rparr>"
  by (auto simp: save_and_respond_def save_def Let_def split: if_splits)

lemma js_add_NaN [simp]: "js_add x NaN = NaN"
  by (cases x) simp_all

lemma valid_add_quantity:
  "list_all valid_item its \<Longrightarrow> ge1 n \<Longrightarrow> list_all valid_item (add_quantity i n its)"
proof (cases "i < length its")
  case True
  assume v: "list_all valid_item its" and n: "ge1 n"
  from v True have "valid_item (its ! i)" by (simp add: list_all_length)
  with n have "valid_item ((its ! i)\<lparr>quantity := js_add (quantity (its ! i)) n\<rparr>)"
    by (simp add: valid_item_def ge1_js_add)
  with v show ?thesis
    unfolding add_quantity_def list_all_iff by (auto dest!: subsetD[OF set_update_subset_insert])
next
  case False
  assume "list_all valid_item its"
  with False show ?thesis by (simp add: add_quantity_def list_update_beyond)
qed

lemma invalid_add_NaN:
  assumes "i < length its"
  shows "\<not> list_all valid_item (add_quantity i NaN its)"
proof -
  from assms have "add_quantity i NaN its ! i = (its ! i)\<lparr>quantity := NaN\<rparr>"
    by (simp add: add_quantity_def)
  moreover have "\<not> valid_item ((its ! i)\<lparr>quantity := NaN\<rparr>)" by (simp add: valid_item_def)
  moreover from assms have "i < length (add_quantity i NaN its)" by (simp add: add_quantity_def)
  ultimately show ?thesis by (metis list_all_length)
qed

text \<open>
  C3. When \<^verbatim>\<open>POST /cart/add\<close> finds the active cart of the key and succeeds, the
  answered cart is the stored one, under the same id. If a line of the requested name
  exists, the first such line gets as quantity the double nearest to its quantity plus
  \<^verbatim>\<open>parseInt(quantity)\<close>, which is the exact sum when both are integers and the sum is
  at most \<open>2 ^ 53\<close> in absolute value; every other line is as before, and the lines and
  their names are as many as before. If none exists, exactly one line, with the requested
  name, price and image and the quantity \<^verbatim>\<open>parseInt(quantity)\<close>, is appended. The amount
  \<^verbatim>\<open>parseInt(quantity)\<close> is the requested integer when that is below \<open>10 ^ 21\<close> in
  absolute value, and 1 when the request has no quantity. On a well-formed collection a
  request with a name, a price that is neither 0 nor NaN and an amount of at least 1 does
  succeed; a request whose quantity is \<^verbatim>\<open>null\<close> is answered with status 500 and leaves
  the carts as they are. Adding \<^verbatim>\<open>Pen\<close> at price 2 with quantity 3 and then with
  quantity 2 for session \<^verbatim>\<open>s1\<close>, from the empty collection, leaves one line of
  quantity 5 and the total 10.
\<close>

theorem addItem_line:
  "(find_cart req st = Some c \<and> body_name req = Some nm \<and> body_price req = Some pr \<and>
    snd (addItem req st) = Inr (CartDoc c') \<longrightarrow>
      c' \<in> set (carts (fst (addItem req st))) \<and> cart_id c' = cart_id c \<and>
      (nm \<in> set (map name (items c)) \<longrightarrow>
         (\<exists>i<length (items c). name (items c ! i) = nm \<and> (\<forall>j<i. name (items c ! j) \<noteq> nm) \<and>
            items c' = (items c)[i := (items c ! i)
                          \<lparr>quantity := js_add (quantity (items c ! i)) (requested_quantity req)\<rparr>] \<and>
            (is_integer (quantity (items c ! i)) \<and> is_integer (requested_quantity req) \<and>
             \<bar>rat_of (quantity (items c ! i)) + rat_of (requested_quantity req)\<bar> \<le> 2 ^ 53 \<longrightarrow>
               quantity (items c' ! i) =
                 Finite (rat_of (quantity (items c ! i)) + rat_of (requested_quantity req)))) \<and>
         length (items c') = length (items c) \<and> map name (items c') = map name (items c)) \<and>
      (nm \<notin> set (map name (items c)) \<longrightarrow>
         items c' = items c @ [\<lparr>name = nm, price = pr, image_url = body_image req,
                                 quantity = requested_quantity req\<rparr>])) \<and>
   (wf_store st \<and> find_cart req st = Some c \<and> body_name req = Some nm \<and> nm \<noteq> [] \<and>
    body_price req = Some pr \<and> \<not> falsy pr \<and> ge1 (requested_quantity req) \<longrightarrow>
      (\<exists>c'. snd (addItem req st) = Inr (CartDoc c'))) \<and>
   (body_quantity req = QNumber (Finite (of_int n)) \<and> \<bar>n\<bar> < 10 ^ 21 \<longrightarrow>
      requested_quantity req = Finite (of_int n)) \<and>
   (body_quantity req = QUndefined \<longrightarrow> requested_quantity req = Finite 1) \<and>
   (body_quantity req = QNull \<and> body_name req = Some nm \<and> nm \<noteq> [] \<and>
    body_price req = Some pr \<and> \<not> falsy pr \<longrightarrow>
      snd (addItem req st) = Inl ServerError \<and> carts (fst (addItem req st)) = carts st) \<and>
   addItem (pen_request 2) (fst (addItem (pen_request 3) empty_store))
     = (pen_store 5, Inr (CartDoc (pen_cart 5)))"
proof (intro conjI impI)
  let ?q = "requested_quantity req"
  let ?line = "\<lparr>name = nm, price = pr, image_url = body_image req, quantity = ?q\<rparr>"
  let ?its = "case findIndex (\<lambda>item. name item = nm) (items c) of
                Some i \<Rightarrow> add_quantity i ?q (items c) | None \<Rightarrow> items c @ [?line]"
  {
    assume h: "find_cart req st = Some c \<and> body_name req = Some nm \<and> body_price req = Some pr \<and>
               snd (addItem req st) = Inr (CartDoc c')"
    then have ok: "nm \<noteq> [] \<and> \<not> falsy pr"
      by (auto simp: addItem_def split: if_splits)
    with h have eq: "addItem req st = save_and_respond False (c\<lparr>items := ?its\<rparr>) st"
      by (simp add: addItem_def Let_def)
    from h eq have "snd (save_and_respond False (c\<lparr>items := ?its\<rparr>) st) = Inr (CartDoc c')"
      by simp
    from save_and_respond_doc[OF this] eq
    have c': "c' = pre_save (c\<lparr>items := ?its\<rparr>)"
      and st': "fst (addItem req st) = st\<lparr>carts := update_first c' (carts st)\<rparr>"
      by simp_all
    from h have mem: "c \<in> set (carts st)" by (auto dest: find_cart_SomeD)
    from c' show "cart_id c' = cart_id c" by simp
    with mem st' show "c' \<in> set (carts (fst (addItem req st)))"
      by (auto intro!: update_first_hit)
    {
      assume "nm \<in> set (map name (items c))"
      then have "findIndex (\<lambda>item. name item = nm) (items c) \<noteq> None"
        by (auto simp: findIndex_None_iff)
      then obtain i where i: "findIndex (\<lambda>item. name item = nm) (items c) = Some i"
        by auto
      with c' have its: "items c' = add_quantity i ?q (items c)" by simp
      from findIndex_Some[OF i] have il: "i < length (items c)" by simp
      with its have qi: "quantity (items c' ! i) = js_add (quantity (items c ! i)) ?q"
        by (simp add: add_quantity_def)
      have "quantity (items c' ! i) = Finite (rat_of (quantity (items c ! i)) + rat_of ?q)"
        if "is_integer (quantity (items c ! i)) \<and> is_integer ?q \<and>
            \<bar>rat_of (quantity (items c ! i)) + rat_of ?q\<bar> \<le> 2 ^ 53"
        using that by (simp add: qi js_add_exact)
      with findIndex_Some[OF i] its
      show "\<exists>i<length (items c). name (items c ! i) = nm \<and> (\<forall>j<i. name (items c ! j) \<noteq> nm) \<and>
              items c' = (items c)[i := (items c ! i)\<lparr>quantity := js_add (quantity (items c ! i)) ?q\<rparr>] \<and>
              (is_integer (quantity (items c ! i)) \<and> is_integer ?q \<and>
               \<bar>rat_of (quantity (items c ! i)) + rat_of ?q\<bar> \<le> 2 ^ 53 \<longrightarrow>
                 quantity (items c' ! i) = Finite (rat_of (quantity (items c ! i)) + rat_of ?q))"
        unfolding add_quantity_def by blast
      from its show "length (items c') = length (items c)" by (simp add: add_quantity_def)
      from its show "map name (items c') = map name (items c)" by (simp add: names_add_quantity)
    }
    {
      assume "nm \<notin> set (map name (items c))"
      then have "findIndex (\<lambda>item. name item = nm) (items c) = None"
        by (auto simp: findIndex_None_iff)
      with c' show "items c' = items c @ [?line]" by simp
    }
  }
  {
    assume h: "wf_store st \<and> find_cart req st = Some c \<and> body_name req = Some nm \<and> nm \<noteq> [] \<and>
               body_price req = Some pr \<and> \<not> falsy pr \<and> ge1 (requested_quantity req)"
    then have eq: "addItem req st = save_and_respond False (c\<lparr>items := ?its\<rparr>) st"
      by (simp add: addItem_def Let_def)
    from h have "c \<in> set (carts st)" by (auto dest: find_cart_SomeD)
    with h have "list_all valid_item (items c)"
      using wf_store_cart[of st c] by (simp add: wf_cart_def validate_def)
    moreover from h have "pr \<noteq> NaN" by auto
    ultimately have "list_all valid_item ?its"
      using h by (auto simp: valid_add_quantity valid_item_def split: option.splits)
    then have "validate (c\<lparr>items := ?its\<rparr>)" by (simp add: validate_def)
    from save_and_respond_update[OF this] eq
    show "\<exists>c'. snd (addItem req st) = Inr (CartDoc c')" by simp
  }
  {
    assume "body_quantity req = QNumber (Finite (of_int n)) \<and> \<bar>n\<bar> < 10 ^ 21"
    then show "requested_quantity req = Finite (of_int n)"
      by (simp add: requested_quantity_def parseInt_quantity_def js_parseInt_of_int)
  }
  {
    assume "body_quantity req = QUndefined"
    then show "requested_quantity req = Finite 1"
      by (simp add: requested_quantity_def parseInt_quantity_def js_parseInt_1)
  }
  {
    assume h: "body_quantity req = QNull \<and> body_name req = Some nm \<and> nm \<noteq> [] \<and>
               body_price req = Some pr \<and> \<not> falsy pr"
    then have q: "requested_quantity req = NaN"
      by (simp add: requested_quantity_def parseInt_quantity_def)
    have bad: "\<not> validate (x\<lparr>items :=
                 case findIndex (\<lambda>item. name item = nm) (items x) of
                   Some i \<Rightarrow> add_quantity i NaN (items x)
                 | None \<Rightarrow> items x @ [\<lparr>name = nm, price = pr, image_url = body_image req,
                                           quantity = NaN\<rparr>]\<rparr>)" for x
      by (auto simp: validate_def valid_item_def invalid_add_NaN split: option.splits
               dest: findIndex_Some)
    from h q bad show "snd (addItem req st) = Inl ServerError"
      by (auto simp: addItem_def Let_def new_Cart_def save_and_respond_def save_def
               split: option.splits)
    from h q bad show "carts (fst (addItem req st)) = carts st"
      by (auto simp: addItem_def Let_def new_Cart_def save_and_respond_def save_def
               split: option.splits)
  }
  show "addItem (pen_request 2) (fst (addItem (pen_request 3) empty_store))
          = (pen_store 5, Inr (CartDoc (pen_cart 5)))"
    by (simp add: example_defs handler_defs)
qed

theorem addItem_line_witness:
  "wf_store (pen_store 3) \<and>
   find_cart (pen_request 2) (pen_store 3) = Some (pen_cart 3) \<and>
   body_name (pen_request 2) = Some ''Pen'' \<and> body_price (pen_request 2) = Some (Finite 2) \<and>
   body_quantity (pen_request 2) = QNumber (Finite (of_int 2)) \<and>
   requested_quantity (pen_request 2) = Finite 2 \<and>
   ge1 (requested_quantity (pen_request 2)) \<and>
   ''Pen'' \<in> set (map name (items (pen_cart 3))) \<and>
   snd (addItem (pen_request 2) (pen_store 3)) = Inr (CartDoc (pen_cart 5)) \<and>
   pen_cart 5 \<in> set (carts (fst (addItem (pen_request 2) (pen_store 3)))) \<and>
   length (items (pen_cart 5)) = length (items (pen_cart 3)) \<and>
   quantity (items (pen_cart 5) ! 0) = js_add (quantity (items (pen_cart 3) ! 0)) (Finite 2) \<and>
   quantity (items (pen_cart 5) ! 0) = Finite 5 \<and>
   body_quantity (key_request None (Some ''s1'')) = QUndefined \<and>
   requested_quantity (key_request None (Some ''s1'')) = Finite 1 \<and>
   body_quantity ((pen_request 2)\<lparr>body_quantity := QNull\<rparr>) = QNull \<and>
   snd (addItem ((pen_request 2)\<lparr>body_quantity := QNull\<rparr>) (pen_store 3)) = Inl ServerError \<and>
   carts (fst (addItem ((pen_request 2)\<lparr>body_quantity := QNull\<rparr>) (pen_store 3))) =
     carts (pen_store 3)"
proof -
  have a: "addItem (pen_request 2) (pen_store 3) = (pen_store 5, Inr (CartDoc (pen_cart 5)))"
    by (simp add: example_defs handler_defs)
  have f: "find_cart (pen_request 2) (pen_store 3) = Some (pen_cart 3)"
    by (simp add: example_defs handler_defs)
  have r: "body_name (pen_request 2) = Some ''Pen'' \<and> body_price (pen_request 2) = Some (Finite 2) \<and>
           body_quantity (pen_request 2) = QNumber (Finite (of_int 2)) \<and>
           ''Pen'' \<in> set (map name (items (pen_cart 3)))"
    by (simp add: example_defs)
  note t = addItem_line[of "pen_request 2" "pen_store 3" "pen_cart 3" "''Pen''" "Finite 2"
                           "pen_cart 5" 2]
  from t r have q: "requested_quantity (pen_request 2) = Finite 2"
    by simp
  from t a f r
  have m: "pen_cart 5 \<in> set (carts (fst (addItem (pen_request 2) (pen_store 3)))) \<and>
        length (items (pen_cart 5)) = length (items (pen_cart 3))"
    by simp
  have v: "quantity (items (pen_cart 5) ! 0) = Finite 5"
    "js_add (quantity (items (pen_cart 3) ! 0)) (Finite 2) = Finite 5"
    by (simp_all add: example_defs number_evals)
  have u: "body_quantity (key_request None (Some ''s1'')) = QUndefined"
    by (simp add: key_request_def)
  with addItem_line[of "key_request None (Some ''s1'')"]
  have u': "requested_quantity (key_request None (Some ''s1'')) = Finite 1"
    by blast
  let ?null = "(pen_request 2)\<lparr>body_quantity := QNull\<rparr>"
  have n: "body_quantity ?null = QNull \<and> body_name ?null = Some ''Pen'' \<and> ''Pen'' \<noteq> [] \<and>
           body_price ?null = Some (Finite 2) \<and> \<not> falsy (Finite 2)"
    by (simp add: example_defs)
  from addItem_line[of ?null "pen_store 3" _ "''Pen''" "Finite 2"] n
  have n': "snd (addItem ?null (pen_store 3)) = Inl ServerError \<and>
            carts (fst (addItem ?null (pen_store 3))) = carts (pen_store 3)"
    by blast
  from a f r q m v u u' n n' wf_pen_store show ?thesis by simp
qed

text \<open>
  C3, the increase against the requested amount. A cart whose \<^verbatim>\<open>Pen\<close> line has the
  quantity \<open>2 ^ 53\<close> (as the first request leaves it) is not changed by a further request
  for one more \<^verbatim>\<open>Pen\<close>, which is answered with that cart: \<open>2 ^ 53 + 1\<close> is no double.
  A request for \<open>10 ^ 21\<close> more adds 1 to the quantity 3: \<^verbatim>\<open>parseInt\<close> reads the digit
  before the exponent of \<^verbatim>\<open>"1e+21"\<close>.
\<close>

theorem addItem_quantity_rounds:
  "addItem (pen_request 9007199254740992) empty_store =
     (pen_store 9007199254740992, Inr (CartDoc (pen_cart 9007199254740992))) \<and>
   requested_quantity (pen_request 1) = Finite 1 \<and>
   addItem (pen_request 1) (pen_store 9007199254740992) =
     (pen_store 9007199254740992, Inr (CartDoc (pen_cart 9007199254740992))) \<and>
   quantity (items (pen_cart 9007199254740992) ! 0) = Finite 9007199254740992 \<and>
   requested_quantity (pen_request 1000000000000000000000) = Finite 1 \<and>
   addItem (pen_request 1000000000000000000000) (pen_store 3) =
     (pen_store 4, Inr (CartDoc (pen_cart 4)))"
  by (simp add: example_defs handler_defs round_double_absorb round_double_2_54 js_parseInt_1e21)

section \<open>Merging a guest cart\<close>

lemma filter_update_first_single:
  "\<forall>d\<in>set ds. \<not> p d \<Longrightarrow> p c \<Longrightarrow> \<exists>d\<in>set ds. cart_id d = cart_id c \<Longrightarrow>
   filter p (update_first c ds) = [c]"
proof (induction ds)
  case Nil
  then show ?case by simp
next
  case (Cons d ds)
  then show ?case
    by (cases "cart_id d = cart_id c") (auto simp: filter_empty_conv)
qed

text \<open>
  C6. On a well-formed collection, when the session has an active cart and the user has
  none, \<^verbatim>\<open>POST /cart/merge\<close> answers with the guest cart re-owned: the same document
  (same id, same lines, same total and status) with the user set and the session id
  cleared. It is written in place of the guest cart: the collection keeps its ids and
  its length, the guest cart as it was is gone, and the re-owned cart is the only active
  cart of the user.
\<close>

theorem merge_guest_only:
  assumes "wf_store st"
    and "body_user req = Some u" and "body_sessionId req = Some s" and "s \<noteq> []"
    and "findOne (by_session (Some s)) st = Some g"
    and "findOne (by_user u) st = None"
  shows "merge req st =
           (st\<lparr>carts := update_first (g\<lparr>user := Some u, sessionId := None\<rparr>) (carts st)\<rparr>,
            Inr (CartDoc (g\<lparr>user := Some u, sessionId := None\<rparr>))) \<and>
         map cart_id (carts (fst (merge req st))) = map cart_id (carts st) \<and>
         length (carts (fst (merge req st))) = length (carts st) \<and>
         filter (by_user u) (carts (fst (merge req st))) = [g\<lparr>user := Some u, sessionId := None\<rparr>] \<and>
         g \<notin> set (carts (fst (merge req st))) \<and>
         items (g\<lparr>user := Some u, sessionId := None\<rparr>) = items g"
proof (intro conjI)
  let ?g' = "g\<lparr>user := Some u, sessionId := None\<rparr>"
  from assms(5) have mem: "g \<in> set (carts st)" and gs: "by_session (Some s) g"
    by (auto dest: findOne_SomeD)
  from wf_store_cart[OF assms(1) mem] have wfg: "wf_cart g" by simp
  then have val: "validate ?g'" and ps: "pre_save ?g' = ?g'"
    by (simp_all add: wf_cart_def validate_def pre_save_same)
  show m: "merge req st = (st\<lparr>carts := update_first ?g' (carts st)\<rparr>, Inr (CartDoc ?g'))"
    using assms save_and_respond_update[OF val, of st] by (simp add: merge_def ps)
  show "map cart_id (carts (fst (merge req st))) = map cart_id (carts st)"
    by (simp add: m update_first_ids)
  show "length (carts (fst (merge req st))) = length (carts st)"
    by (simp add: m update_first_length)
  have none: "\<forall>d\<in>set (carts st). \<not> by_user u d"
    using assms(6) by (simp add: findOne_None_iff)
  have "by_user u ?g'" using gs by (simp add: by_user_def by_session_def)
  with none mem show "filter (by_user u) (carts (fst (merge req st))) = [?g']"
    by (simp add: m) (rule filter_update_first_single, auto)
  from gs have "?g' \<noteq> g"
    by (auto simp: by_session_def dest: arg_cong[where f = sessionId])
  with mem assms(1) show "g \<notin> set (carts (fst (merge req st)))"
    by (simp add: m update_first_replaces wf_store_def)
  show "items ?g' = items g" by simp
qed

theorem merge_guest_only_witness:
  "wf_store (pen_store 3) \<and>
   body_user (key_request (Some 7) (Some ''s1'')) = Some 7 \<and>
   body_sessionId (key_request (Some 7) (Some ''s1'')) = Some ''s1'' \<and> ''s1'' \<noteq> [] \<and>
   findOne (by_session (Some ''s1'')) (pen_store 3) = Some (pen_cart 3) \<and>
   findOne (by_user 7) (pen_store 3) = None \<and>
   merge (key_request (Some 7) (Some ''s1'')) (pen_store 3) =
     (\<lparr>carts = [(pen_cart 3)\<lparr>user := Some 7, sessionId := None\<rparr>], next_id = 1\<rparr>,
      Inr (CartDoc ((pen_cart 3)\<lparr>user := Some 7, sessionId := None\<rparr>)))"
proof -
  have h: "body_user (key_request (Some 7) (Some ''s1'')) = Some 7"
    "body_sessionId (key_request (Some 7) (Some ''s1'')) = Some ''s1''" "''s1'' \<noteq> []"
    "findOne (by_session (Some ''s1'')) (pen_store 3) = Some (pen_cart 3)"
    "findOne (by_user 7) (pen_store 3) = None"
    by (simp_all add: example_defs findOne_def by_session_def by_user_def)
  from merge_guest_only[OF wf_pen_store h, THEN conjunct1]
  have "merge (key_request (Some 7) (Some ''s1'')) (pen_store 3) =
     (\<lparr>carts = [(pen_cart 3)\<lparr>user := Some 7, sessionId := None\<rparr>], next_id = 1\<rparr>,
      Inr (CartDoc ((pen_cart 3)\<lparr>user := Some 7, sessionId := None\<rparr>)))"
    by (simp add: pen_store_def pen_cart_def)
  with h wf_pen_store show ?thesis by simp
qed

section \<open>Merging two carts\<close>

lemma quantity_of_Cons:
  "quantity_of n (x # xs) = (if name x = n then Some (quantity x) else quantity_of n xs)"
  by (simp add: quantity_of_def)

lemma quantity_of_None_iff: "quantity_of n its = None \<longleftrightarrow> n \<notin> name ` set its"
  by (induction its) (auto simp: quantity_of_Cons, simp add: quantity_of_def)

lemma quantity_of_append:
  "quantity_of n (xs @ ys) = (case quantity_of n xs of Some q \<Rightarrow> Some q | None \<Rightarrow> quantity_of n ys)"
  by (induction xs) (simp_all add: quantity_of_Cons, simp add: quantity_of_def)

lemma quantity_of_add_quantity:
  "findIndex (\<lambda>item. name item = m) its = Some i \<Longrightarrow>
   quantity_of n (add_quantity i q its) =
     (if m = n then map_option (\<lambda>x. js_add x q) (quantity_of n its) else quantity_of n its)"
proof (induction its arbitrary: i)
  case Nil
  then show ?case by simp
next
  case (Cons x xs)
  show ?case
  proof (cases "name x = m")
    case True
    with Cons.prems have "i = 0" by simp
    with True show ?thesis by (auto simp: add_quantity_def quantity_of_Cons)
  next
    case False
    with Cons.prems obtain k where k: "findIndex (\<lambda>item. name item = m) xs = Some k" "i = Suc k"
      by auto
    from Cons.IH[OF k(1)] k(2) False show ?thesis
      by (auto simp: add_quantity_def quantity_of_Cons)
  qed
qed

lemma quantity_of_merge_item:
  "quantity_of n (merge_item us g) =
     (if name g = n
      then Some (case quantity_of n us of Some q \<Rightarrow> js_add q (quantity g) | None \<Rightarrow> quantity g)
      else quantity_of n us)"
proof (cases "findIndex (\<lambda>item. name item = name g) us")
  case None
  then have "name g \<notin> name ` set us" by (auto simp: findIndex_None_iff)
  then have "quantity_of (name g) us = None" by (simp add: quantity_of_None_iff)
  with None show ?thesis
    by (auto simp: merge_item_def quantity_of_append quantity_of_Cons split: option.splits)
       (simp add: quantity_of_def)
next
  case (Some i)
  from findIndex_Some[OF Some] have "name g \<in> name ` set us"
    by (metis image_eqI nth_mem)
  then obtain q where "quantity_of (name g) us = Some q"
    using quantity_of_None_iff[of "name g" us] by auto
  with Some show ?thesis
    by (auto simp: merge_item_def quantity_of_add_quantity)
qed

lemma quantity_of_merge_items:
  "distinct (map name gs) \<Longrightarrow>
   quantity_of n (merge_items us gs) =
     (case quantity_of n gs of
        None \<Rightarrow> quantity_of n us
      | Some qg \<Rightarrow> Some (case quantity_of n us of Some q \<Rightarrow> js_add q qg | None \<Rightarrow> qg))"
  unfolding merge_items_def
proof (induction gs arbitrary: us)
  case Nil
  then show ?case by (simp add: quantity_of_def)
next
  case (Cons g gs)
  from Cons.prems have d: "distinct (map name gs)" and g: "name g \<notin> name ` set gs" by simp_all
  show ?case
  proof (cases "name g = n")
    case True
    with g have "quantity_of n gs = None" by (simp add: quantity_of_None_iff)
    with Cons.IH[OF d, of "merge_item us g"] True show ?thesis
      by (simp add: quantity_of_merge_item quantity_of_Cons)
  next
    case False
    then have e: "quantity_of n (merge_item us g) = quantity_of n us"
      by (simp add: quantity_of_merge_item)
    from Cons.IH[OF d, of "merge_item us g"] False show ?thesis
      by (simp add: e quantity_of_Cons split: option.splits)
  qed
qed

lemma quantity_of_distinct:
  "distinct (map name its) \<Longrightarrow> x \<in> set its \<Longrightarrow> quantity_of (name x) its = Some (quantity x)"
  by (induction its) (auto simp: quantity_of_Cons)

lemma valid_merge_item:
  "list_all valid_item us \<Longrightarrow> valid_item g \<Longrightarrow> list_all valid_item (merge_item us g)"
  by (auto simp: merge_item_def valid_add_quantity valid_item_def split: option.splits)

lemma valid_merge_items:
  "list_all valid_item us \<Longrightarrow> list_all valid_item gs \<Longrightarrow> list_all valid_item (merge_items us gs)"
  unfolding merge_items_def
  by (induction gs arbitrary: us) (auto simp: valid_merge_item)

text \<open>The lines a merge starts from keep their place, their name and their price.\<close>

lemma merge_item_prefix:
  "\<exists>zs. map (\<lambda>item. (name item, price item)) (merge_item us g) =
         map (\<lambda>item. (name item, price item)) us @ zs"
  by (auto simp: merge_item_def add_quantity_def map_update_same split: option.splits)

lemma merge_items_prefix:
  "\<exists>zs. map (\<lambda>item. (name item, price item)) (merge_items us gs) =
         map (\<lambda>item. (name item, price item)) us @ zs"
  unfolding merge_items_def
proof (induction gs arbitrary: us)
  case Nil
  then show ?case by simp
next
  case (Cons g gs)
  from merge_item_prefix[of us g] obtain zs where
    "map (\<lambda>item. (name item, price item)) (merge_item us g) =
     map (\<lambda>item. (name item, price item)) us @ zs" by blast
  moreover from Cons.IH[of "merge_item us g"] obtain ys where
    "map (\<lambda>item. (name item, price item)) (foldl merge_item (merge_item us g) gs) =
     map (\<lambda>item. (name item, price item)) (merge_item us g) @ ys" by blast
  ultimately show ?case by simp
qed

lemma distinct_names_unique:
  "distinct (map name its) \<Longrightarrow> x \<in> set its \<Longrightarrow> y \<in> set its \<Longrightarrow> name x = name y \<Longrightarrow> x = y"
  by (auto simp: distinct_map dest: inj_onD)

lemma merge_items_price:
  assumes "distinct (map name us)" and "x \<in> set (merge_items us gs)" and "a \<in> set us"
    and "name a = name x"
  shows "price x = price a"
proof -
  from merge_items_prefix[of us gs] obtain zs where
    p: "map (\<lambda>item. (name item, price item)) (merge_items us gs) =
        map (\<lambda>item. (name item, price item)) us @ zs" by blast
  from assms(3) have "(name a, price a) \<in> set (map (\<lambda>item. (name item, price item)) us @ zs)"
    by auto
  with p have "(name a, price a) \<in> set (map (\<lambda>item. (name item, price item)) (merge_items us gs))"
    by simp
  then obtain y where y: "y \<in> set (merge_items us gs)" "name y = name a" "price y = price a"
    by auto
  from assms(1) have "distinct (map name (merge_items us gs))"
    using distinct_merge_items[of us gs] by (simp add: distinct_names_def)
  from distinct_names_unique[OF this assms(2) y(1)] y assms(4) show ?thesis by simp
qed

lemma deleteOne_length:
  "i \<in> cart_id ` set ds \<Longrightarrow> length (deleteOne i ds) + 1 = length ds"
  by (induction ds) auto

lemma merge_both:
  assumes "wf_store st"
    and "body_user req = Some u" and "body_sessionId req = Some s" and "s \<noteq> []"
    and "findOne (by_session (Some s)) st = Some g"
    and "findOne (by_user u) st = Some uc"
  shows "merge req st =
           (st\<lparr>carts := deleteOne (cart_id g)
                   (update_first (pre_save (uc\<lparr>items := merge_items (items uc) (items g)\<rparr>))
                      (carts st))\<rparr>,
            Inr (CartDoc (pre_save (uc\<lparr>items := merge_items (items uc) (items g)\<rparr>))))"
proof -
  from assms(5,6) have "g \<in> set (carts st)" "uc \<in> set (carts st)"
    by (auto dest: findOne_SomeD)
  with wf_store_cart[OF assms(1)] have "wf_cart g" "wf_cart uc" by simp_all
  then have "validate (uc\<lparr>items := merge_items (items uc) (items g)\<rparr>)"
    by (simp add: wf_cart_def validate_def valid_merge_items)
  with assms show ?thesis
    by (simp add: merge_def save_def Let_def)
qed

text \<open>
  C2. On a well-formed collection, when the session and the user both have an active
  cart, \<^verbatim>\<open>POST /cart/merge\<close> answers with the user's cart (same id, user and status)
  whose line names are the names of the two carts, each once, so that its lines are as
  many as the names of the union. A line whose name both carts hold has the double
  nearest to the sum of the two quantities, which is the sum when both are integers and it
  is at most \<open>2 ^ 53\<close> in absolute value; a line whose name only one cart holds has that
  cart's quantity. No document with the guest cart's id is left in the collection. When
  the two carts are two documents, the answered cart is stored and the collection has one
  document less.
\<close>

theorem merge_both_carts:
  assumes "wf_store st"
    and "body_user req = Some u" and "body_sessionId req = Some s" and "s \<noteq> []"
    and "findOne (by_session (Some s)) st = Some g"
    and "findOne (by_user u) st = Some uc"
  shows "\<exists>c'. snd (merge req st) = Inr (CartDoc c') \<and>
           cart_id c' = cart_id uc \<and> user c' = Some u \<and> status c' = Active \<and>
           set (map name (items c')) = set (map name (items uc)) \<union> set (map name (items g)) \<and>
           distinct (map name (items c')) \<and>
           length (items c') = card (set (map name (items uc)) \<union> set (map name (items g))) \<and>
           (\<forall>x\<in>set (items c'). \<forall>a\<in>set (items uc). \<forall>b\<in>set (items g).
              name a = name x \<and> name b = name x \<longrightarrow>
                quantity x = js_add (quantity a) (quantity b) \<and>
                (is_integer (quantity a) \<and> is_integer (quantity b) \<and>
                 \<bar>rat_of (quantity a) + rat_of (quantity b)\<bar> \<le> 2 ^ 53 \<longrightarrow>
                   quantity x = Finite (rat_of (quantity a) + rat_of (quantity b)))) \<and>
           (\<forall>x\<in>set (items c'). \<forall>a\<in>set (items uc).
              name a = name x \<and> name x \<notin> set (map name (items g)) \<longrightarrow> quantity x = quantity a) \<and>
           (\<forall>x\<in>set (items c'). \<forall>b\<in>set (items g).
              name b = name x \<and> name x \<notin> set (map name (items uc)) \<longrightarrow> quantity x = quantity b) \<and>
           cart_id g \<notin> set (map cart_id (carts (fst (merge req st)))) \<and>
           (cart_id g \<noteq> cart_id uc \<longrightarrow>
              c' \<in> set (carts (fst (merge req st))) \<and>
              length (carts (fst (merge req st))) + 1 = length (carts st))"
proof -
  let ?its = "merge_items (items uc) (items g)"
  let ?c = "pre_save (uc\<lparr>items := ?its\<rparr>)"
  let ?cs = "update_first ?c (carts st)"
  note m = merge_both[OF assms]
  from assms(5,6) have gm: "g \<in> set (carts st)" and um: "uc \<in> set (carts st)"
    and ub: "by_user u uc"
    by (auto dest: findOne_SomeD)
  from wf_store_cart[OF assms(1)] gm um have wfg: "wf_cart g" and wfu: "wf_cart uc" by simp_all
  then have dg: "distinct (map name (items g))" and du: "distinct (map name (items uc))"
    by (simp_all add: wf_cart_def distinct_names_def)
  from du have d: "distinct (map name ?its)"
    using distinct_merge_items[of "items uc" "items g"] by (simp add: distinct_names_def)
  have n: "set (map name ?its) = set (map name (items uc)) \<union> set (map name (items g))"
    by (rule names_merge_items)
  have q: "Some (quantity x) =
             (case quantity_of (name x) (items g) of
                None \<Rightarrow> quantity_of (name x) (items uc)
              | Some qg \<Rightarrow> Some (case quantity_of (name x) (items uc) of
                                    Some q \<Rightarrow> js_add q qg | None \<Rightarrow> qg))"
    if "x \<in> set ?its" for x
    using quantity_of_distinct[OF d that] quantity_of_merge_items[OF dg, of "name x" "items uc"]
    by simp
  have qu: "quantity_of (name x) (items uc) = Some (quantity a)"
    if "a \<in> set (items uc)" "name a = name x" for a x
    using quantity_of_distinct[OF du that(1)] that(2) by simp
  have qg: "quantity_of (name x) (items g) = Some (quantity b)"
    if "b \<in> set (items g)" "name b = name x" for b x
    using quantity_of_distinct[OF dg that(1)] that(2) by simp
  have zu: "quantity_of (name x) (items uc) = None" if "name x \<notin> set (map name (items uc))" for x
    using that by (simp add: quantity_of_None_iff)
  have zg: "quantity_of (name x) (items g) = None" if "name x \<notin> set (map name (items g))" for x
    using that by (simp add: quantity_of_None_iff)
  have ids: "distinct (map cart_id ?cs)"
    using assms(1) by (simp add: update_first_ids wf_store_def)
  have "snd (merge req st) = Inr (CartDoc ?c)" by (simp add: m)
  moreover have "cart_id ?c = cart_id uc \<and> user ?c = Some u \<and> status ?c = Active"
    using ub by (simp add: by_user_def)
  moreover have "set (map name (items ?c)) = set (map name (items uc)) \<union> set (map name (items g))"
    using n by simp
  moreover have "distinct (map name (items ?c))" using d by simp
  moreover have "length (items ?c) = card (set (map name (items uc)) \<union> set (map name (items g)))"
    using distinct_card[OF d] n by simp
  moreover have "\<forall>x\<in>set (items ?c). \<forall>a\<in>set (items uc). \<forall>b\<in>set (items g).
              name a = name x \<and> name b = name x \<longrightarrow>
                quantity x = js_add (quantity a) (quantity b) \<and>
                (is_integer (quantity a) \<and> is_integer (quantity b) \<and>
                 \<bar>rat_of (quantity a) + rat_of (quantity b)\<bar> \<le> 2 ^ 53 \<longrightarrow>
                   quantity x = Finite (rat_of (quantity a) + rat_of (quantity b)))"
  proof (intro ballI impI)
    fix x a b
    assume x: "x \<in> set (items ?c)" and a: "a \<in> set (items uc)" and b: "b \<in> set (items g)"
      and nm: "name a = name x \<and> name b = name x"
    from x have "x \<in> set ?its" by simp
    moreover from nm have "quantity_of (name x) (items uc) = Some (quantity a)"
      and "quantity_of (name x) (items g) = Some (quantity b)"
      using qu[OF a, of x] qg[OF b, of x] by simp_all
    ultimately have e: "quantity x = js_add (quantity a) (quantity b)"
      using q[of x] by simp
    show "quantity x = js_add (quantity a) (quantity b) \<and>
          (is_integer (quantity a) \<and> is_integer (quantity b) \<and>
           \<bar>rat_of (quantity a) + rat_of (quantity b)\<bar> \<le> 2 ^ 53 \<longrightarrow>
             quantity x = Finite (rat_of (quantity a) + rat_of (quantity b)))"
      using e by (simp add: js_add_exact)
  qed
  moreover have "\<forall>x\<in>set (items ?c). \<forall>a\<in>set (items uc).
              name a = name x \<and> name x \<notin> set (map name (items g)) \<longrightarrow> quantity x = quantity a"
  proof (intro ballI impI)
    fix x a
    assume x: "x \<in> set (items ?c)" and a: "a \<in> set (items uc)"
      and nm: "name a = name x \<and> name x \<notin> set (map name (items g))"
    from x have "x \<in> set ?its" by simp
    moreover from nm have "quantity_of (name x) (items uc) = Some (quantity a)"
      and "quantity_of (name x) (items g) = None"
      using qu[OF a, of x] zg[of x] by simp_all
    ultimately show "quantity x = quantity a"
      using q[of x] by simp
  qed
  moreover have "\<forall>x\<in>set (items ?c). \<forall>b\<in>set (items g).
              name b = name x \<and> name x \<notin> set (map name (items uc)) \<longrightarrow> quantity x = quantity b"
  proof (intro ballI impI)
    fix x b
    assume x: "x \<in> set (items ?c)" and b: "b \<in> set (items g)"
      and nm: "name b = name x \<and> name x \<notin> set (map name (items uc))"
    from x have "x \<in> set ?its" by simp
    moreover from nm have "quantity_of (name x) (items g) = Some (quantity b)"
      and "quantity_of (name x) (items uc) = None"
      using qg[OF b, of x] zu[of x] by simp_all
    ultimately show "quantity x = quantity b"
      using q[of x] by simp
  qed
  moreover have "cart_id g \<notin> set (map cart_id (carts (fst (merge req st))))"
    using deleteOne_gone[OF ids, of "cart_id g"] by (simp add: m)
  moreover have "?c \<in> set (carts (fst (merge req st))) \<and>
                 length (carts (fst (merge req st))) + 1 = length (carts st)"
    if "cart_id g \<noteq> cart_id uc"
  proof
    have "?c \<in> set ?cs" using um by (auto intro!: update_first_hit)
    with that show "?c \<in> set (carts (fst (merge req st)))"
      by (simp add: m deleteOne_others)
    have "cart_id g \<in> cart_id ` set ?cs"
      using gm update_first_ids[of ?c "carts st"] by (metis image_eqI list.set_map)
    from deleteOne_length[OF this] show "length (carts (fst (merge req st))) + 1 = length (carts st)"
      by (simp add: m update_first_length)
  qed
  ultimately show ?thesis by blast
qed

lemma two_cart_store_eval:
  "two_cart_store =
     \<lparr>carts = [\<lparr>cart_id = 0, user = None, items = [line_of ''Pen'' 2 3, line_of ''Ink'' 4 1],
                 totalPrice = Finite 10, status = Active, sessionId = Some ''s1''\<rparr>,
                \<lparr>cart_id = 1, user = Some 7, items = [line_of ''Pen'' 2 2, line_of ''Cap'' 1 1],
                 totalPrice = Finite 5, status = Active, sessionId = None\<rparr>],
      next_id = 2\<rparr>"
  by (simp add: two_cart_store_def example_defs handler_defs)

lemma mixed_price_store_5_2:
  "mixed_price_store 5 2 =
        \<lparr>carts = [\<lparr>cart_id = 0, user = None, items = [line_of ''Pen'' 5 1],
                    totalPrice = Finite 5, status = Active, sessionId = Some ''s1''\<rparr>,
                   \<lparr>cart_id = 1, user = Some 7, items = [line_of ''Pen'' 2 1],
                    totalPrice = Finite 2, status = Active, sessionId = None\<rparr>],
         next_id = 2\<rparr>"
  by (simp add: mixed_price_store_def example_defs handler_defs)

lemma mixed_price_store_2_5:
  "mixed_price_store 2 5 =
        \<lparr>carts = [\<lparr>cart_id = 0, user = None, items = [line_of ''Pen'' 2 1],
                    totalPrice = Finite 2, status = Active, sessionId = Some ''s1''\<rparr>,
                   \<lparr>cart_id = 1, user = Some 7, items = [line_of ''Pen'' 5 1],
                    totalPrice = Finite 5, status = Active, sessionId = None\<rparr>],
         next_id = 2\<rparr>"
  by (simp add: mixed_price_store_def example_defs handler_defs)

lemma large_quantity_store_eval:
  "large_quantity_store =
        \<lparr>carts = [\<lparr>cart_id = 0, user = None, items = [line_of ''Pen'' 1 1],
                    totalPrice = Finite 1, status = Active, sessionId = Some ''s1''\<rparr>,
                   \<lparr>cart_id = 1, user = Some 7, items = [line_of ''Pen'' 1 9007199254740992],
                    totalPrice = Finite 9007199254740992, status = Active, sessionId = None\<rparr>],
         next_id = 2\<rparr>"
  by (simp add: large_quantity_store_def example_defs handler_defs)

lemma wf_two_cart_store: "wf_store two_cart_store"
  unfolding two_cart_store_def by (rule wf_run) (rule wf_empty_store)

lemma wf_mixed_price_store: "wf_store (mixed_price_store pg pu)"
  unfolding mixed_price_store_def by (rule wf_run) (rule wf_empty_store)

theorem merge_both_carts_witness:
  "wf_store two_cart_store \<and>
   body_user (key_request (Some 7) (Some ''s1'')) = Some 7 \<and>
   body_sessionId (key_request (Some 7) (Some ''s1'')) = Some ''s1'' \<and> ''s1'' \<noteq> [] \<and>
   findOne (by_session (Some ''s1'')) two_cart_store =
     Some \<lparr>cart_id = 0, user = None, items = [line_of ''Pen'' 2 3, line_of ''Ink'' 4 1],
           totalPrice = Finite 10, status = Active, sessionId = Some ''s1''\<rparr> \<and>
   findOne (by_user 7) two_cart_store =
     Some \<lparr>cart_id = 1, user = Some 7, items = [line_of ''Pen'' 2 2, line_of ''Cap'' 1 1],
           totalPrice = Finite 5, status = Active, sessionId = None\<rparr> \<and>
   merge (key_request (Some 7) (Some ''s1'')) two_cart_store =
     (\<lparr>carts = [\<lparr>cart_id = 1, user = Some 7,
                   items = [line_of ''Pen'' 2 5, line_of ''Cap'' 1 1, line_of ''Ink'' 4 1],
                   totalPrice = Finite 15, status = Active, sessionId = None\<rparr>],
       next_id = 2\<rparr>,
      Inr (CartDoc \<lparr>cart_id = 1, user = Some 7,
                    items = [line_of ''Pen'' 2 5, line_of ''Cap'' 1 1, line_of ''Ink'' 4 1],
                    totalPrice = Finite 15, status = Active, sessionId = None\<rparr>)) \<and>
   0 \<notin> set (map cart_id (carts (fst (merge (key_request (Some 7) (Some ''s1'')) two_cart_store))))"
proof -
  let ?k = "key_request (Some 7) (Some ''s1'')"
  let ?g = "\<lparr>cart_id = 0, user = None, items = [line_of ''Pen'' 2 3, line_of ''Ink'' 4 1],
             totalPrice = Finite 10, status = Active, sessionId = Some ''s1''\<rparr>"
  let ?u = "\<lparr>cart_id = 1, user = Some 7, items = [line_of ''Pen'' 2 2, line_of ''Cap'' 1 1],
             totalPrice = Finite 5, status = Active, sessionId = None\<rparr>"
  have h: "body_user ?k = Some 7" "body_sessionId ?k = Some ''s1''" "''s1'' \<noteq> []"
    "findOne (by_session (Some ''s1'')) two_cart_store = Some ?g"
    "findOne (by_user 7) two_cart_store = Some ?u"
    by (simp_all add: two_cart_store_eval key_request_def findOne_def by_session_def by_user_def)
  have e: "merge ?k two_cart_store =
     (\<lparr>carts = [\<lparr>cart_id = 1, user = Some 7,
                   items = [line_of ''Pen'' 2 5, line_of ''Cap'' 1 1, line_of ''Ink'' 4 1],
                   totalPrice = Finite 15, status = Active, sessionId = None\<rparr>],
       next_id = 2\<rparr>,
      Inr (CartDoc \<lparr>cart_id = 1, user = Some 7,
                    items = [line_of ''Pen'' 2 5, line_of ''Cap'' 1 1, line_of ''Ink'' 4 1],
                    totalPrice = Finite 15, status = Active, sessionId = None\<rparr>))"
    by (simp add: two_cart_store_eval example_defs handler_defs)
  from merge_both_carts[OF wf_two_cart_store h]
  have "cart_id ?g \<notin> set (map cart_id (carts (fst (merge ?k two_cart_store))))"
    by blast
  with h e wf_two_cart_store show ?thesis by simp
qed

text \<open>
  C2, the merged quantity against the sum. With \<open>2 ^ 53\<close> of \<^verbatim>\<open>Pen\<close> in the cart of
  user 7 and one in the guest cart of session \<^verbatim>\<open>s1\<close>, both carts built by requests,
  the merge answers with the user's cart as it was, and deletes the guest cart: the merged
  line has the quantity \<open>2 ^ 53\<close>, not \<open>2 ^ 53 + 1\<close>, which is no double.
\<close>

theorem merge_quantity_rounds:
  "large_quantity_store =
     \<lparr>carts = [\<lparr>cart_id = 0, user = None, items = [line_of ''Pen'' 1 1],
                 totalPrice = Finite 1, status = Active, sessionId = Some ''s1''\<rparr>,
                \<lparr>cart_id = 1, user = Some 7, items = [line_of ''Pen'' 1 9007199254740992],
                 totalPrice = Finite 9007199254740992, status = Active, sessionId = None\<rparr>],
      next_id = 2\<rparr> \<and>
   merge (key_request (Some 7) (Some ''s1'')) large_quantity_store =
     (\<lparr>carts = [\<lparr>cart_id = 1, user = Some 7, items = [line_of ''Pen'' 1 9007199254740992],
                  totalPrice = Finite 9007199254740992, status = Active, sessionId = None\<rparr>],
       next_id = 2\<rparr>,
      Inr (CartDoc \<lparr>cart_id = 1, user = Some 7, items = [line_of ''Pen'' 1 9007199254740992],
                    totalPrice = Finite 9007199254740992, status = Active, sessionId = None\<rparr>)) \<and>
   quantity (line_of ''Pen'' 1 9007199254740992) = Finite 9007199254740992 \<and>
   quantity (line_of ''Pen'' 1 9007199254740992) \<noteq> Finite (9007199254740992 + 1)"
  by (simp add: large_quantity_store_eval example_defs handler_defs round_double_absorb)

text \<open>
  C10. On a well-formed collection, when the session and the user both have an active
  cart, every line of the merged cart whose name the user's cart held carries the price
  of the user's line: the guest's price for that name is not used. With \<^verbatim>\<open>Pen\<close> at
  price 5 in the guest cart and 2 in the user's cart (one each), the merged total is 4,
  less than 5 + 2; with the prices exchanged it is 10, more than 2 + 5.
\<close>

theorem merge_keeps_user_price:
  "(wf_store st \<and> body_user req = Some u \<and> body_sessionId req = Some s \<and> s \<noteq> [] \<and>
    findOne (by_session (Some s)) st = Some g \<and> findOne (by_user u) st = Some uc \<longrightarrow>
      (\<exists>c'. snd (merge req st) = Inr (CartDoc c') \<and>
            (\<forall>x\<in>set (items c'). \<forall>a\<in>set (items uc). name a = name x \<longrightarrow> price x = price a))) \<and>
   map totalPrice (carts (mixed_price_store 5 2)) = [Finite 5, Finite 2] \<and>
   snd (merge (key_request (Some 7) (Some ''s1'')) (mixed_price_store 5 2)) =
     Inr (CartDoc \<lparr>cart_id = 1, user = Some 7, items = [line_of ''Pen'' 2 2],
                   totalPrice = Finite 4, status = Active, sessionId = None\<rparr>) \<and>
   map totalPrice (carts (mixed_price_store 2 5)) = [Finite 2, Finite 5] \<and>
   snd (merge (key_request (Some 7) (Some ''s1'')) (mixed_price_store 2 5)) =
     Inr (CartDoc \<lparr>cart_id = 1, user = Some 7, items = [line_of ''Pen'' 5 2],
                   totalPrice = Finite 10, status = Active, sessionId = None\<rparr>)"
proof (intro conjI impI)
  assume h: "wf_store st \<and> body_user req = Some u \<and> body_sessionId req = Some s \<and> s \<noteq> [] \<and>
    findOne (by_session (Some s)) st = Some g \<and> findOne (by_user u) st = Some uc"
  let ?c = "pre_save (uc\<lparr>items := merge_items (items uc) (items g)\<rparr>)"
  from h have m: "snd (merge req st) = Inr (CartDoc ?c)"
    by (simp add: merge_both)
  from h have "uc \<in> set (carts st)" by (auto dest: findOne_SomeD)
  with h have du: "distinct (map name (items uc))"
    using wf_store_cart[of st uc] by (simp add: wf_cart_def distinct_names_def)
  have "\<forall>x\<in>set (items ?c). \<forall>a\<in>set (items uc). name a = name x \<longrightarrow> price x = price a"
    using merge_items_price[OF du] by auto
  with m show "\<exists>c'. snd (merge req st) = Inr (CartDoc c') \<and>
            (\<forall>x\<in>set (items c'). \<forall>a\<in>set (items uc). name a = name x \<longrightarrow> price x = price a)"
    by blast
qed (simp_all add: mixed_price_store_5_2 mixed_price_store_2_5 example_defs handler_defs)

theorem merge_keeps_user_price_witness:
  "wf_store (mixed_price_store 5 2) \<and>
   body_user (key_request (Some 7) (Some ''s1'')) = Some 7 \<and>
   body_sessionId (key_request (Some 7) (Some ''s1'')) = Some ''s1'' \<and> ''s1'' \<noteq> [] \<and>
   findOne (by_session (Some ''s1'')) (mixed_price_store 5 2) =
     Some \<lparr>cart_id = 0, user = None, items = [line_of ''Pen'' 5 1],
           totalPrice = Finite 5, status = Active, sessionId = Some ''s1''\<rparr> \<and>
   findOne (by_user 7) (mixed_price_store 5 2) =
     Some \<lparr>cart_id = 1, user = Some 7, items = [line_of ''Pen'' 2 1],
           totalPrice = Finite 2, status = Active, sessionId = None\<rparr> \<and>
   line_of ''Pen'' 2 2 \<in> set (items \<lparr>cart_id = 1, user = Some 7, items = [line_of ''Pen'' 2 2],
                   totalPrice = Finite 4, status = Active, sessionId = None\<rparr>) \<and>
   price (line_of ''Pen'' 2 2) = price (line_of ''Pen'' 2 1)"
proof -
  let ?k = "key_request (Some 7) (Some ''s1'')"
  let ?g = "\<lparr>cart_id = 0, user = None, items = [line_of ''Pen'' 5 1],
           totalPrice = Finite 5, status = Active, sessionId = Some ''s1''\<rparr>"
  let ?u = "\<lparr>cart_id = 1, user = Some 7, items = [line_of ''Pen'' 2 1],
           totalPrice = Finite 2, status = Active, sessionId = None\<rparr>"
  have h: "body_user ?k = Some 7 \<and> body_sessionId ?k = Some ''s1'' \<and> ''s1'' \<noteq> [] \<and>
    findOne (by_session (Some ''s1'')) (mixed_price_store 5 2) = Some ?g \<and>
    findOne (by_user 7) (mixed_price_store 5 2) = Some ?u"
    by (simp add: mixed_price_store_5_2 key_request_def findOne_def by_session_def by_user_def)
  from merge_keeps_user_price[of "mixed_price_store 5 2" ?k 7 "''s1''" ?g ?u] h wf_mixed_price_store
  have "price (line_of ''Pen'' 2 2) = price (line_of ''Pen'' 2 1)"
    by (simp add: line_of_def)
  with h wf_mixed_price_store show ?thesis by simp
qed

section \<open>One active cart per key\<close>

lemma set_map_filter: "set (List.map_filter f xs) = {y. \<exists>x\<in>set xs. f x = Some y}"
  by (induction xs) (auto split: option.splits)

lemma distinct_map_filter_Cons:
  "distinct (List.map_filter f (d # ds)) \<longleftrightarrow>
     distinct (List.map_filter f ds) \<and> (\<forall>k. f d = Some k \<longrightarrow> (\<forall>x\<in>set ds. f x \<noteq> Some k))"
  by (cases "f d") (auto simp: set_map_filter)

lemma keys_update_first:
  assumes "distinct (List.map_filter f ds)" and "distinct (map cart_id ds)"
    and "\<forall>d\<in>set ds. f d \<noteq> None \<longrightarrow> f d = f c \<longrightarrow> cart_id d = cart_id c"
  shows "distinct (List.map_filter f (update_first c ds))"
  using assms
proof (induction ds)
  case Nil
  then show ?case by simp
next
  case (Cons d ds)
  from Cons.prems(1) have dds: "distinct (List.map_filter f ds)"
    and dk: "\<And>k x. f d = Some k \<Longrightarrow> x \<in> set ds \<Longrightarrow> f x \<noteq> Some k"
    unfolding distinct_map_filter_Cons by blast+
  from Cons.prems(2) have ids: "distinct (map cart_id ds)" and did: "cart_id d \<notin> cart_id ` set ds"
    by simp_all
  from Cons.prems(3) have same: "\<And>x. x \<in> set ds \<Longrightarrow> f x \<noteq> None \<Longrightarrow> f x = f c \<Longrightarrow> cart_id x = cart_id c"
    and samed: "f d \<noteq> None \<Longrightarrow> f d = f c \<Longrightarrow> cart_id d = cart_id c"
    by simp_all
  show ?case
  proof (cases "cart_id d = cart_id c")
    case True
    have "f x \<noteq> Some k" if "f c = Some k" "x \<in> set ds" for k x
    proof
      assume "f x = Some k"
      with that same[of x] have "cart_id x = cart_id c" by simp
      with True that(2) did show False by (metis image_eqI)
    qed
    with dds True show ?thesis
      by (simp add: distinct_map_filter_Cons del: map_filter_simps)
  next
    case False
    have ih: "distinct (List.map_filter f (update_first c ds))"
      using Cons.IH[OF dds ids] same by blast
    have "f x \<noteq> Some k" if k: "f d = Some k" and x: "x \<in> set (update_first c ds)" for k x
    proof
      assume fx: "f x = Some k"
      from x update_first_set[of c ds] have "x = c \<or> x \<in> set ds" by auto
      then show False
      proof
        assume "x = c"
        with fx k samed False show False by simp
      next
        assume "x \<in> set ds"
        with dk[OF k] fx show False by simp
      qed
    qed
    with ih False show ?thesis
      by (simp add: distinct_map_filter_Cons del: map_filter_simps)
  qed
qed

lemma keys_deleteOne:
  "distinct (List.map_filter f ds) \<Longrightarrow> distinct (List.map_filter f (deleteOne i ds))"
proof (induction ds)
  case Nil
  then show ?case by simp
next
  case (Cons d ds)
  with deleteOne_set[of i ds] show ?case
    by (auto simp: map_filter_simps set_map_filter split: option.splits)
qed

lemma keys_append:
  "distinct (List.map_filter f ds) \<Longrightarrow> \<forall>d\<in>set ds. f d \<noteq> None \<longrightarrow> f d \<noteq> f c \<Longrightarrow>
   distinct (List.map_filter f (ds @ [c]))"
  by (cases "f c") (auto simp: map_filter_def)

lemma keys_same:
  "distinct (List.map_filter f ds) \<Longrightarrow> c \<in> set ds \<Longrightarrow> d \<in> set ds \<Longrightarrow> f d \<noteq> None \<Longrightarrow>
   f d = f c \<Longrightarrow> d = c"
  by (induction ds) (auto simp: map_filter_simps set_map_filter split: option.splits)

lemma keys_replace:
  assumes "distinct (List.map_filter f ds)" and "distinct (map cart_id ds)"
    and "c \<in> set ds" and "cart_id x = cart_id c" and "f x = f c \<or> f x = None"
  shows "distinct (List.map_filter f (update_first x ds))"
proof (rule keys_update_first[OF assms(1,2)], intro ballI impI)
  fix d assume d: "d \<in> set ds" "f d \<noteq> None" "f d = f x"
  with assms(5) have "f d = f c" by auto
  from keys_same[OF assms(1,3) d(1,2) this] assms(4) show "cart_id d = cart_id x" by simp
qed

lemma keys_resave:
  assumes "\<And>c. f (pre_save c) = f c" and "wf_store st"
    and "distinct (List.map_filter f (carts st))"
    and "c \<in> set (carts st)" and "cart_id x = cart_id c" and "f x = f c \<or> f x = None"
  shows "distinct (List.map_filter f (carts (fst (save_and_respond False x st))))"
proof (cases "validate x")
  case True
  from assms(2) have ids: "distinct (map cart_id (carts st))" by (simp add: wf_store_def)
  have "distinct (List.map_filter f (update_first (pre_save x) (carts st)))"
    using assms by (intro keys_replace[OF assms(3) ids assms(4)]) simp_all
  with True show ?thesis by (simp add: save_and_respond_update)
next
  case False
  with assms(3) show ?thesis by (simp add: save_and_respond_def save_def)
qed

lemma owner_key_simps [simp]:
  "owner_key (pre_save c) = owner_key c" "owner_key (c\<lparr>items := its\<rparr>) = owner_key c"
  "owner_key (c\<lparr>status := Ordered\<rparr>) = None"
  by (simp_all add: owner_key_def)

lemma session_key_simps [simp]:
  "session_key (pre_save c) = session_key c" "session_key (c\<lparr>items := its\<rparr>) = session_key c"
  "session_key (c\<lparr>status := Ordered\<rparr>) = None"
  by (simp_all add: session_key_def)

lemma find_cart_mem: "find_cart req st = Some c \<Longrightarrow> c \<in> set (carts st)"
  by (simp add: find_cart_SomeD)

text \<open>The handlers that only write the found cart back, for any key that ignores the items.\<close>

lemma keys_found_handlers:
  assumes "\<And>c. f (pre_save c) = f c" and "\<And>c its. f (c\<lparr>items := its\<rparr>) = f c"
    and "\<And>c. f (c\<lparr>status := Ordered\<rparr>) = None"
    and "wf_store st" and "distinct (List.map_filter f (carts st))"
  shows "distinct (List.map_filter f (carts (fst (updateQuantity req st))))"
    and "distinct (List.map_filter f (carts (fst (removeItem req st))))"
    and "distinct (List.map_filter f (carts (fst (clear req st))))"
    and "distinct (List.map_filter f (carts (fst (checkout req st))))"
    and "distinct (List.map_filter f (carts (fst (getCart req st))))"
  using assms(4,5)
  by (auto simp: updateQuantity_def removeItem_def clear_def checkout_def getCart_def assms(1,2,3)
           split: option.splits dest!: find_cart_mem
           intro!: keys_resave[where f = f])

lemma keys_addItem_found:
  assumes "\<And>c. f (pre_save c) = f c" and "\<And>c its. f (c\<lparr>items := its\<rparr>) = f c"
    and "wf_store st" and "distinct (List.map_filter f (carts st))"
    and "find_cart req st = Some c"
  shows "distinct (List.map_filter f (carts (fst (addItem req st))))"
proof -
  from assms(5) have mem: "c \<in> set (carts st)" by (rule find_cart_mem)
  have "distinct (List.map_filter f (carts (fst (save_and_respond False (c\<lparr>items := its\<rparr>) st))))"
    for its
    using assms(1)
    by (rule keys_resave[OF _ assms(3,4) mem]) (simp_all add: assms(2))
  with assms(4,5) show ?thesis
    by (auto simp: addItem_def Let_def split: option.splits)
qed

lemma keys_addItem_new:
  assumes "\<And>c. f (pre_save c) = f c" and "\<And>c its. f (c\<lparr>items := its\<rparr>) = f c"
    and "distinct (List.map_filter f (carts st))"
    and "find_cart req st = None"
    and "\<forall>d\<in>set (carts st). f d \<noteq> None \<longrightarrow> f d \<noteq> f (fst (new_Cart req st))"
  shows "distinct (List.map_filter f (carts (fst (addItem req st))))"
proof -
  let ?c0 = "fst (new_Cart req st)" and ?st1 = "snd (new_Cart req st)"
  have c1: "carts ?st1 = carts st" by (simp add: new_Cart_def)
  have "distinct (List.map_filter f (carts (fst (save_and_respond True (?c0\<lparr>items := its\<rparr>) ?st1))))"
    for its
  proof (cases "validate (?c0\<lparr>items := its\<rparr>)")
    case True
    have "distinct (List.map_filter f (carts st @ [pre_save (?c0\<lparr>items := its\<rparr>)]))"
      using assms(3,5) by (intro keys_append) (simp_all add: assms(1,2))
    with True show ?thesis
      by (simp add: save_and_respond_def save_def Let_def c1)
  next
    case False
    with assms(3) show ?thesis
      by (simp add: save_and_respond_def save_def c1)
  qed
  with assms(3,4) show ?thesis
    by (auto simp: addItem_def Let_def split_beta split: option.splits)
qed

lemma owner_addItem:
  assumes "wf_store st" and "unique_active_owner st"
  shows "unique_active_owner (fst (addItem req st))"
proof (cases "find_cart req st")
  case None
  have "\<forall>d\<in>set (carts st). owner_key d \<noteq> None \<longrightarrow> owner_key d \<noteq> owner_key (fst (new_Cart req st))"
    using None
    by (auto simp: find_cart_def findOne_None_iff by_user_def owner_key_def new_Cart_def
             split: option.splits if_splits)
  with assms None show ?thesis
    unfolding unique_active_owner_def by (intro keys_addItem_new) simp_all
next
  case (Some c)
  with assms show ?thesis
    unfolding unique_active_owner_def by (intro keys_addItem_found[where c = c]) simp_all
qed

lemma session_addItem:
  assumes "wf_store st" and "unique_active_session st"
    and "body_user req = None \<or> body_sessionId req = None"
  shows "unique_active_session (fst (addItem req st))"
proof (cases "find_cart req st")
  case None
  have "\<forall>d\<in>set (carts st). session_key d \<noteq> None \<longrightarrow>
          session_key d \<noteq> session_key (fst (new_Cart req st))"
    using None assms(3)
    by (auto simp: find_cart_def findOne_None_iff by_session_def session_key_def new_Cart_def
             split: option.splits if_splits)
  with assms None show ?thesis
    unfolding unique_active_session_def by (intro keys_addItem_new) simp_all
next
  case (Some c)
  with assms show ?thesis
    unfolding unique_active_session_def by (intro keys_addItem_found[where c = c]) simp_all
qed

text \<open>The merge: re-owning frees the session key and takes a user key nobody holds.\<close>

lemma keys_merge:
  assumes "\<And>c. f (pre_save c) = f c" and "\<And>c its. f (c\<lparr>items := its\<rparr>) = f c"
    and "wf_store st" and "distinct (List.map_filter f (carts st))"
    and "\<And>g u s. findOne (by_session (Some s)) st = Some g \<Longrightarrow> findOne (by_user u) st = None \<Longrightarrow>
           distinct (List.map_filter f
             (update_first (pre_save (g\<lparr>user := Some u, sessionId := None\<rparr>)) (carts st)))"
  shows "distinct (List.map_filter f (carts (fst (merge req st))))"
proof -
  have both: "distinct (List.map_filter f (deleteOne i (carts st')))"
    if "save False (uc\<lparr>items := its\<rparr>) st = Some (st', c')" and "uc \<in> set (carts st)"
    for uc its st' c' i
  proof -
    have "distinct (List.map_filter f (carts (fst (save_and_respond False (uc\<lparr>items := its\<rparr>) st))))"
      using assms(1) by (rule keys_resave[OF _ assms(3,4) that(2)]) (simp_all add: assms(2))
    with that(1) show ?thesis by (simp add: save_and_respond_def keys_deleteOne)
  qed
  have rename: "distinct (List.map_filter f
       (carts (fst (save_and_respond False (g\<lparr>user := Some u, sessionId := None\<rparr>) st))))"
    if "findOne (by_session (Some s)) st = Some g" "findOne (by_user u) st = None" for g u s
    using assms(5)[OF that] assms(4)
    by (auto simp: save_and_respond_def save_def Let_def)
  show ?thesis
    using assms(4)
    by (auto simp: merge_def split: option.splits intro!: both rename dest: findOne_SomeD)
qed

lemma owner_merge:
  assumes "wf_store st" and "unique_active_owner st"
  shows "unique_active_owner (fst (merge req st))"
  unfolding unique_active_owner_def
proof (rule keys_merge[OF _ _ assms(1)])
  show "distinct (List.map_filter owner_key (carts st))"
    using assms(2) by (simp add: unique_active_owner_def)
next
  fix g u s
  assume g: "findOne (by_session (Some s)) st = Some g" and n: "findOne (by_user u) st = None"
  from n have "\<forall>d\<in>set (carts st). owner_key d \<noteq> Some u"
    by (auto simp: findOne_None_iff by_user_def owner_key_def split: if_splits)
  moreover from g have "owner_key (pre_save (g\<lparr>user := Some u, sessionId := None\<rparr>)) = Some u"
    by (auto simp: owner_key_def by_session_def dest: findOne_SomeD)
  ultimately show "distinct (List.map_filter owner_key
         (update_first (pre_save (g\<lparr>user := Some u, sessionId := None\<rparr>)) (carts st)))"
    using assms by (intro keys_update_first) (simp_all add: unique_active_owner_def wf_store_def)
qed simp_all

lemma session_merge:
  assumes "wf_store st" and "unique_active_session st"
  shows "unique_active_session (fst (merge req st))"
  unfolding unique_active_session_def
proof (rule keys_merge[OF _ _ assms(1)])
  show "distinct (List.map_filter session_key (carts st))"
    using assms(2) by (simp add: unique_active_session_def)
next
  fix g u s
  assume g: "findOne (by_session (Some s)) st = Some g"
  then have "g \<in> set (carts st)" by (auto dest: findOne_SomeD)
  then show "distinct (List.map_filter session_key
         (update_first (pre_save (g\<lparr>user := Some u, sessionId := None\<rparr>)) (carts st)))"
    using assms
    by (intro keys_replace[where c = g])
       (simp_all add: unique_active_session_def wf_store_def session_key_def)
qed simp_all

lemma owner_handle:
  assumes "wf_store st" and "unique_active_owner st"
  shows "unique_active_owner (fst (handle r req st))"
proof -
  have d: "distinct (List.map_filter owner_key (carts st))"
    using assms(2) by (simp add: unique_active_owner_def)
  note k = keys_found_handlers[where f = owner_key, OF _ _ _ assms(1) d, simplified,
      folded unique_active_owner_def]
  show ?thesis
    by (cases r) (simp_all add: k owner_addItem owner_merge assms)
qed

lemma session_handle:
  assumes "wf_store st" and "unique_active_session st"
    and "r \<noteq> CartAdd \<or> body_user req = None \<or> body_sessionId req = None"
  shows "unique_active_session (fst (handle r req st))"
proof -
  have d: "distinct (List.map_filter session_key (carts st))"
    using assms(2) by (simp add: unique_active_session_def)
  note k = keys_found_handlers[where f = session_key, OF _ _ _ assms(1) d, simplified,
      folded unique_active_session_def]
  show ?thesis
    using assms(3) by (cases r) (auto simp: k session_addItem session_merge assms(1,2))
qed

lemma owner_run: "wf_store st \<Longrightarrow> unique_active_owner st \<Longrightarrow> unique_active_owner (run ops st)"
  by (induction ops st rule: run.induct) (auto simp: wf_handle owner_handle)

lemma shared_session_store_eval:
  "shared_session_store =
     \<lparr>carts = [pen_cart 3,
                \<lparr>cart_id = 1, user = Some 7, items = [line_of ''Pen'' 2 2], totalPrice = Finite 4,
                 status = Active, sessionId = Some ''s1''\<rparr>],
      next_id = 2\<rparr>"
  by (simp add: shared_session_store_def example_defs handler_defs)

lemmas invariant_defs = cart_invariant_def unique_active_owner_def unique_active_session_def
  exclusive_key_def owner_key_def session_key_def

text \<open>
  C5. The collection that holds the guest cart of the session \<^verbatim>\<open>s1\<close> satisfies the
  three properties: every cart has exactly one of owner and session id, and no two active
  carts share an owner or a session id. A \<^verbatim>\<open>POST /cart/add\<close> that carries user 7
  and the session \<^verbatim>\<open>s1\<close> looks the cart up by the user only, finds none, and stores
  a new cart with both keys: the collection then has two active carts of session
  \<^verbatim>\<open>s1\<close>, one of them with both keys set, and the properties are lost.
\<close>

theorem addItem_both_keys_second_session_cart:
  "cart_invariant (pen_store 3) \<and>
   fst (handle CartAdd (request_of (Some 7) (Some ''s1'') ''Pen'' 2 2) (pen_store 3))
     = shared_session_store \<and>
   \<not> cart_invariant shared_session_store \<and>
   \<not> unique_active_session shared_session_store \<and>
   \<not> list_all exclusive_key (carts shared_session_store)"
  by (simp add: shared_session_store_eval invariant_defs example_defs handler_defs)

section \<open>Checkout\<close>

text \<open>What a handler does to the collection: nothing, an insert, or the rewrite of an
  active cart, which the merge may follow with the removal of an active cart.\<close>

lemma save_and_respond_frame:
  "carts (fst (save_and_respond isNew c st)) = carts st \<or>
   carts (fst (save_and_respond isNew c st)) =
     (if isNew then carts st @ [pre_save c] else update_first (pre_save c) (carts st))"
  by (simp add: save_and_respond_def save_def Let_def)

lemma update_first_keeps:
  "distinct (map cart_id ds) \<Longrightarrow> c \<in> set ds \<Longrightarrow> cart_id x = cart_id c \<Longrightarrow> d \<in> set ds \<Longrightarrow>
   d \<noteq> c \<Longrightarrow> d \<in> set (update_first x ds)"
  using update_first_present[of ds c x] by auto

lemma resave_keeps:
  assumes "wf_store st" and "c \<in> set (carts st)" and "status c = Active"
    and "cart_id x = cart_id c" and "d \<in> set (carts st)" and "status d \<noteq> Active"
  shows "d \<in> set (carts (fst (save_and_respond False x st)))"
proof -
  from assms(3,6) have "d \<noteq> c" by auto
  with assms have "d \<in> set (update_first (pre_save x) (carts st))"
    by (intro update_first_keeps[where c = c]) (simp_all add: wf_store_def)
  with assms(5) save_and_respond_frame[of False x st] show ?thesis by auto
qed

lemma inactive_kept_addItem:
  assumes "wf_store st" and "d \<in> set (carts st)" and "status d \<noteq> Active"
  shows "d \<in> set (carts (fst (addItem req st)))"
proof (cases "find_cart req st")
  case None
  have "d \<in> set (carts (fst (save_and_respond True x (snd (new_Cart req st)))))" for x
    using assms(2) save_and_respond_frame[of True x "snd (new_Cart req st)"]
    by (auto simp: new_Cart_def)
  with None assms(2) show ?thesis
    by (auto simp: addItem_def Let_def split_beta split: option.splits)
next
  case (Some c)
  then have "c \<in> set (carts st)" "status c = Active" by (simp_all add: find_cart_SomeD)
  from resave_keeps[OF assms(1) this _ assms(2,3)] Some assms(2) show ?thesis
    by (auto simp: addItem_def Let_def split: option.splits)
qed

lemma inactive_kept_merge:
  assumes "wf_store st" and "d \<in> set (carts st)" and "status d \<noteq> Active"
  shows "d \<in> set (carts (fst (merge req st)))"
proof -
  have both: "d \<in> set (deleteOne (cart_id g) (carts st'))"
    if "save False (uc\<lparr>items := its\<rparr>) st = Some (st', c')"
      and "findOne (by_user u) st = Some uc" and "findOne (by_session s) st = Some g"
    for uc its st' c' g u s
  proof -
    from that(2) have uc: "uc \<in> set (carts st)" "status uc = Active"
      by (auto simp: by_user_def dest: findOne_SomeD)
    from that(3) have g: "g \<in> set (carts st)" "status g = Active"
      by (auto simp: by_session_def dest: findOne_SomeD)
    from resave_keeps[OF assms(1) uc _ assms(2,3), of "uc\<lparr>items := its\<rparr>"] that(1)
    have "d \<in> set (carts st')" by (simp add: save_and_respond_def)
    moreover from g assms have "cart_id d \<noteq> cart_id g"
      by (auto simp: wf_store_def distinct_map dest: inj_onD)
    ultimately show ?thesis by (rule deleteOne_others)
  qed
  have rename: "d \<in> set (carts (fst (save_and_respond False (g\<lparr>user := Some u, sessionId := None\<rparr>) st)))"
    if "findOne (by_session s) st = Some g" for g u s
  proof -
    from that have g: "g \<in> set (carts st)" "status g = Active"
      by (auto simp: by_session_def dest: findOne_SomeD)
    from resave_keeps[OF assms(1) g _ assms(2,3)] show ?thesis by simp
  qed
  show ?thesis
    using assms(2)
    by (auto simp: merge_def split: option.splits intro!: both rename)
qed

lemma inactive_kept:
  assumes "wf_store st" and "d \<in> set (carts st)" and "status d \<noteq> Active"
  shows "d \<in> set (carts (fst (handle r req st)))"
proof -
  have k: "d \<in> set (carts (fst (save_and_respond False x st)))"
    if "find_cart req st = Some c" "cart_id x = cart_id c" for c x
    using resave_keeps[OF assms(1) _ _ that(2) assms(2,3)] that(1)
    by (simp add: find_cart_SomeD)
  show ?thesis
  proof (cases r)
    case CartAdd
    with assms show ?thesis by (simp add: inactive_kept_addItem)
  next
    case CartGet
    with assms(2) show ?thesis by (simp add: getCart_def split: option.splits)
  next
    case CartUpdate
    with assms(2) show ?thesis
      by (auto simp: updateQuantity_def split: option.splits intro!: k)
  next
    case CartRemove
    with assms(2) show ?thesis
      by (auto simp: removeItem_def split: option.splits intro!: k)
  next
    case CartClear
    with assms(2) show ?thesis
      by (auto simp: clear_def split: option.splits intro!: k)
  next
    case CartMerge
    with assms show ?thesis by (simp add: inactive_kept_merge)
  next
    case CartCheckout
    with assms(2) show ?thesis
      by (auto simp: checkout_def split: option.splits intro!: k)
  qed
qed

lemma inactive_kept_run:
  "wf_store st \<Longrightarrow> d \<in> set (carts st) \<Longrightarrow> status d \<noteq> Active \<Longrightarrow> d \<in> set (carts (run ops st))"
  by (induction ops st rule: run.induct) (auto simp: wf_handle inactive_kept)

lemma checkout_found:
  assumes "wf_store st" and "find_cart req st = Some c"
  shows "checkout req st =
           (st\<lparr>carts := update_first (c\<lparr>status := Ordered\<rparr>) (carts st)\<rparr>,
            Inr (CartDoc (c\<lparr>status := Ordered\<rparr>)))"
proof -
  from assms have "wf_cart c" using wf_store_cart[of st c] by (simp add: find_cart_SomeD)
  then have "validate (c\<lparr>status := Ordered\<rparr>)" "pre_save (c\<lparr>status := Ordered\<rparr>) = c\<lparr>status := Ordered\<rparr>"
    by (simp_all add: wf_cart_def validate_def pre_save_same)
  with assms(2) save_and_respond_update[of "c\<lparr>status := Ordered\<rparr>" st] show ?thesis
    by (simp add: checkout_def)
qed

lemma second_checkout:
  assumes "wf_store st" and "find_cart req st = Some c"
    and "\<forall>x\<in>set (carts st). key_filter req x \<longrightarrow> x = c"
  shows "snd (checkout req (fst (checkout req st))) = Inl NotFound"
proof -
  let ?c' = "c\<lparr>status := Ordered\<rparr>"
  let ?st' = "st\<lparr>carts := update_first ?c' (carts st)\<rparr>"
  from assms(2) have mem: "c \<in> set (carts st)" by (rule find_cart_mem)
  have "\<not> key_filter req x" if "x \<in> set (carts ?st')" for x
  proof
    assume k: "key_filter req x"
    from assms(1) mem have "set (update_first ?c' (carts st)) = insert ?c' (set (carts st) - {c})"
      by (intro update_first_present) (simp_all add: wf_store_def)
    with that have "x = ?c' \<or> (x \<in> set (carts st) \<and> x \<noteq> c)" by auto
    then show False
    proof
      assume "x = ?c'"
      with key_filter_Active[OF k] show False by simp
    next
      assume "x \<in> set (carts st) \<and> x \<noteq> c"
      with assms(3) k show False by blast
    qed
  qed
  then have "find_cart req ?st' = None" by (simp add: find_cart_None_iff)
  then have "snd (checkout req ?st') = Inl NotFound" by (simp add: checkout_def)
  then show ?thesis
    by (simp add: checkout_found[OF assms(1,2)])
qed

lemma filter_singleton:
  assumes "filter p xs = [c]" and "x \<in> set xs" and "p x"
  shows "x = c"
proof -
  from assms(2,3) have "x \<in> set (filter p xs)" by simp
  with assms(1) show ?thesis by simp
qed

lemma owner_key_filter:
  assumes "unique_active_owner st" and "body_user req \<noteq> None" and "find_cart req st = Some c"
  shows "\<forall>x\<in>set (carts st). key_filter req x \<longrightarrow> x = c"
proof (intro ballI impI)
  fix x assume x: "x \<in> set (carts st)" "key_filter req x"
  from assms(2) obtain u where u: "body_user req = Some u" by auto
  with x(2) have kx: "owner_key x = Some u" by (simp add: key_filter_def by_user_def owner_key_def)
  from assms(3) u have "c \<in> set (carts st)" "owner_key c = Some u"
    by (auto simp: find_cart_def by_user_def owner_key_def dest: findOne_SomeD)
  with keys_same[of owner_key "carts st" c x] assms(1) x(1) kx show "x = c"
    by (simp add: unique_active_owner_def)
qed

text \<open>
  C7. In the collection with two active carts of the session \<^verbatim>\<open>s1\<close> (the guest
  cart, and the cart that the request with user 7 and the same session created), the first
  \<^verbatim>\<open>POST /cart/checkout\<close> of \<^verbatim>\<open>s1\<close> orders the guest cart, and the second one
  does not answer NotFound: it finds the other cart and orders it.
\<close>

theorem second_checkout_finds_other_cart:
  "snd (checkout (key_request None (Some ''s1'')) shared_session_store) =
     Inr (CartDoc ((pen_cart 3)\<lparr>status := Ordered\<rparr>)) \<and>
   snd (checkout (key_request None (Some ''s1''))
          (fst (checkout (key_request None (Some ''s1'')) shared_session_store))) =
     Inr (CartDoc \<lparr>cart_id = 1, user = Some 7, items = [line_of ''Pen'' 2 2], totalPrice = Finite 4,
                   status = Ordered, sessionId = Some ''s1''\<rparr>)"
  by (simp add: shared_session_store_eval example_defs handler_defs)

text \<open>
  What checkout does on every collection. \<^verbatim>\<open>POST /cart/checkout\<close> answers NotFound
  exactly when no cart of the collection matches the key's filter. On a well-formed
  collection with an active cart for the key it succeeds: that cart is written back with
  the status \<open>Ordered\<close> and the active one is gone. A second checkout of the same key
  answers NotFound when the ordered cart was the only cart that matched the key, which
  is always so for a user key when owners have at most one active cart. No handler and
  no run of requests changes or removes an ordered cart.
\<close>

theorem checkout_transition:
  "(snd (checkout req st) = Inl NotFound \<longleftrightarrow> \<not> (\<exists>c\<in>set (carts st). key_filter req c)) \<and>
   (wf_store st \<and> find_cart req st = Some c \<longrightarrow>
      status c = Active \<and>
      checkout req st =
        (st\<lparr>carts := update_first (c\<lparr>status := Ordered\<rparr>) (carts st)\<rparr>,
         Inr (CartDoc (c\<lparr>status := Ordered\<rparr>))) \<and>
      c\<lparr>status := Ordered\<rparr> \<in> set (carts (fst (checkout req st))) \<and>
      c \<notin> set (carts (fst (checkout req st)))) \<and>
   (wf_store st \<and> find_cart req st = Some c \<and> filter (key_filter req) (carts st) = [c] \<longrightarrow>
      snd (checkout req (fst (checkout req st))) = Inl NotFound) \<and>
   (wf_store st \<and> find_cart req st = Some c \<and> unique_active_owner st \<and> body_user req \<noteq> None \<longrightarrow>
      snd (checkout req (fst (checkout req st))) = Inl NotFound) \<and>
   (wf_store st \<and> d \<in> set (carts st) \<and> status d = Ordered \<longrightarrow>
      d \<in> set (carts (fst (handle r rq st))) \<and> d \<in> set (carts (run ops st)))"
proof (intro conjI impI)
  show "snd (checkout req st) = Inl NotFound \<longleftrightarrow> \<not> (\<exists>c\<in>set (carts st). key_filter req c)"
    using find_cart_None_iff[of req st]
    by (auto simp: checkout_def save_and_respond_not_client_error split: option.splits)
next
  assume h: "wf_store st \<and> find_cart req st = Some c"
  then have mem: "c \<in> set (carts st)" and act: "status c = Active"
    using find_cart_SomeD[of req st c] by simp_all
  from h have co: "checkout req st =
        (st\<lparr>carts := update_first (c\<lparr>status := Ordered\<rparr>) (carts st)\<rparr>,
         Inr (CartDoc (c\<lparr>status := Ordered\<rparr>)))"
    by (simp add: checkout_found)
  show "status c = Active" by (rule act)
  show "checkout req st =
        (st\<lparr>carts := update_first (c\<lparr>status := Ordered\<rparr>) (carts st)\<rparr>,
         Inr (CartDoc (c\<lparr>status := Ordered\<rparr>)))" by (rule co)
  from mem show "c\<lparr>status := Ordered\<rparr> \<in> set (carts (fst (checkout req st)))"
    by (auto simp: co intro!: update_first_hit)
  from act have "c\<lparr>status := Ordered\<rparr> \<noteq> c"
    by (auto dest: arg_cong[where f = status])
  with h mem show "c \<notin> set (carts (fst (checkout req st)))"
    by (simp add: co update_first_replaces wf_store_def)
next
  assume h: "wf_store st \<and> find_cart req st = Some c \<and> filter (key_filter req) (carts st) = [c]"
  then have "\<forall>x\<in>set (carts st). key_filter req x \<longrightarrow> x = c"
    by (auto dest: filter_singleton)
  with h show "snd (checkout req (fst (checkout req st))) = Inl NotFound"
    by (simp add: second_checkout)
next
  assume h: "wf_store st \<and> find_cart req st = Some c \<and> unique_active_owner st \<and> body_user req \<noteq> None"
  then have "\<forall>x\<in>set (carts st). key_filter req x \<longrightarrow> x = c"
    by (intro owner_key_filter) simp_all
  with h show "snd (checkout req (fst (checkout req st))) = Inl NotFound"
    by (simp add: second_checkout)
next
  assume h: "wf_store st \<and> d \<in> set (carts st) \<and> status d = Ordered"
  then show "d \<in> set (carts (fst (handle r rq st)))" by (simp add: inactive_kept)
  from h show "d \<in> set (carts (run ops st))" by (simp add: inactive_kept_run)
qed

lemma ordered_store_eval:
  "ordered_store =
     \<lparr>carts = [(pen_cart 3)\<lparr>status := Ordered\<rparr>,
                \<lparr>cart_id = 1, user = Some 7, items = [line_of ''Pen'' 2 3], totalPrice = Finite 6,
                 status = Active, sessionId = None\<rparr>],
      next_id = 2\<rparr>"
  by (simp add: ordered_store_def example_defs handler_defs)

lemma wf_ordered_store: "wf_store ordered_store"
  unfolding ordered_store_def by (rule wf_run) (rule wf_empty_store)

theorem checkout_transition_witness:
  "wf_store ordered_store \<and>
   find_cart (key_request (Some 7) None) ordered_store =
     Some \<lparr>cart_id = 1, user = Some 7, items = [line_of ''Pen'' 2 3], totalPrice = Finite 6,
           status = Active, sessionId = None\<rparr> \<and>
   filter (key_filter (key_request (Some 7) None)) (carts ordered_store) =
     [\<lparr>cart_id = 1, user = Some 7, items = [line_of ''Pen'' 2 3], totalPrice = Finite 6,
       status = Active, sessionId = None\<rparr>] \<and>
   unique_active_owner ordered_store \<and>
   body_user (key_request (Some 7) None) = Some 7 \<and>
   (pen_cart 3)\<lparr>status := Ordered\<rparr> \<in> set (carts ordered_store) \<and>
   status ((pen_cart 3)\<lparr>status := Ordered\<rparr>) = Ordered \<and>
   snd (checkout (key_request (Some 7) None) ordered_store) =
     Inr (CartDoc \<lparr>cart_id = 1, user = Some 7, items = [line_of ''Pen'' 2 3], totalPrice = Finite 6,
                   status = Ordered, sessionId = None\<rparr>) \<and>
   snd (checkout (key_request (Some 7) None)
          (fst (checkout (key_request (Some 7) None) ordered_store))) = Inl NotFound \<and>
   (pen_cart 3)\<lparr>status := Ordered\<rparr>
     \<in> set (carts (fst (handle CartCheckout (key_request (Some 7) None) ordered_store)))"
proof -
  let ?k = "key_request (Some 7) None"
  let ?u = "\<lparr>cart_id = 1, user = Some 7, items = [line_of ''Pen'' 2 3], totalPrice = Finite 6,
             status = Active, sessionId = None\<rparr>"
  let ?d = "(pen_cart 3)\<lparr>status := Ordered\<rparr>"
  have h: "find_cart ?k ordered_store = Some ?u \<and>
           filter (key_filter ?k) (carts ordered_store) = [?u] \<and>
           unique_active_owner ordered_store \<and> body_user ?k = Some 7 \<and>
           ?d \<in> set (carts ordered_store) \<and> status ?d = Ordered"
    by (simp add: ordered_store_eval invariant_defs key_filter_def example_defs handler_defs)
  note t = checkout_transition[of ?k ordered_store ?u ?d CartCheckout ?k "[]"]
  from t h wf_ordered_store
  have "checkout ?k ordered_store =
          (ordered_store\<lparr>carts := update_first (?u\<lparr>status := Ordered\<rparr>) (carts ordered_store)\<rparr>,
           Inr (CartDoc (?u\<lparr>status := Ordered\<rparr>)))"
    by blast
  then have c2: "snd (checkout ?k ordered_store) =
     Inr (CartDoc \<lparr>cart_id = 1, user = Some 7, items = [line_of ''Pen'' 2 3], totalPrice = Finite 6,
                   status = Ordered, sessionId = None\<rparr>)"
    by simp
  from t h wf_ordered_store
  have c3: "snd (checkout ?k (fst (checkout ?k ordered_store))) = Inl NotFound"
    by blast
  from t h wf_ordered_store
  have c5: "?d \<in> set (carts (fst (handle CartCheckout ?k ordered_store)))"
    by blast
  from h wf_ordered_store c2 c3 c5 show ?thesis by blast
qed

section \<open>The keys of a cart\<close>

lemma list_all_save_and_respond:
  "list_all P (carts st) \<Longrightarrow> P (pre_save c) \<Longrightarrow>
   list_all P (carts (fst (save_and_respond isNew c st)))"
  using save_and_respond_frame[of isNew c st]
  by (auto simp: list_all_update_first split: if_splits)

lemma exclusive_key_simps [simp]:
  "exclusive_key (pre_save c) = exclusive_key c"
  "exclusive_key (c\<lparr>items := its\<rparr>) = exclusive_key c"
  "exclusive_key (c\<lparr>status := s\<rparr>) = exclusive_key c"
  "exclusive_key (c\<lparr>user := Some u, sessionId := None\<rparr>)"
  by (simp_all add: exclusive_key_def)

lemma exclusive_found:
  "list_all exclusive_key (carts st) \<Longrightarrow> find_cart req st = Some c \<Longrightarrow> exclusive_key c"
  by (auto simp: list_all_iff dest: find_cart_mem)

lemma exclusive_addItem:
  assumes "list_all exclusive_key (carts st)"
    and "(body_user req = None) \<noteq> (body_sessionId req = None)"
  shows "list_all exclusive_key (carts (fst (addItem req st)))"
proof (cases "find_cart req st")
  case None
  have "list_all exclusive_key
          (carts (fst (save_and_respond True (fst (new_Cart req st)\<lparr>items := its\<rparr>)
                         (snd (new_Cart req st)))))" for its
    using assms by (intro list_all_save_and_respond) (simp_all add: new_Cart_def exclusive_key_def)
  with None assms(1) show ?thesis
    by (auto simp: addItem_def Let_def split_beta split: option.splits)
next
  case (Some c)
  from exclusive_found[OF assms(1) Some]
  have "list_all exclusive_key (carts (fst (save_and_respond False (c\<lparr>items := its\<rparr>) st)))" for its
    using assms(1) by (intro list_all_save_and_respond) simp_all
  with Some assms(1) show ?thesis
    by (auto simp: addItem_def Let_def split: option.splits)
qed

lemma exclusive_merge:
  assumes "list_all exclusive_key (carts st)"
  shows "list_all exclusive_key (carts (fst (merge req st)))"
proof -
  have both: "list_all exclusive_key (deleteOne i (carts st'))"
    if "save False (uc\<lparr>items := its\<rparr>) st = Some (st', c')" and "findOne p st = Some uc"
    for uc its st' c' i p
  proof -
    from that(2) assms have "exclusive_key uc" by (auto simp: list_all_iff dest: findOne_SomeD)
    with assms have "list_all exclusive_key (carts (fst (save_and_respond False (uc\<lparr>items := its\<rparr>) st)))"
      by (intro list_all_save_and_respond) simp_all
    with that(1) show ?thesis by (simp add: save_and_respond_def list_all_deleteOne)
  qed
  have rename: "list_all exclusive_key
       (carts (fst (save_and_respond False (g\<lparr>user := Some u, sessionId := None\<rparr>) st)))" for g u
    using assms by (intro list_all_save_and_respond) simp_all
  show ?thesis
    using assms
    by (auto simp: merge_def split: option.splits intro!: rename both[where p = "by_user _"])
qed

lemma exclusive_handle:
  assumes "list_all exclusive_key (carts st)"
    and "r = CartAdd \<longrightarrow> (body_user req = None) \<noteq> (body_sessionId req = None)"
  shows "list_all exclusive_key (carts (fst (handle r req st)))"
proof -
  have k: "list_all exclusive_key (carts (fst (save_and_respond False x st)))"
    if "exclusive_key x" for x
    using assms(1) that by (intro list_all_save_and_respond) simp_all
  show ?thesis
  proof (cases r)
    case CartAdd
    with assms show ?thesis by (simp add: exclusive_addItem)
  next
    case CartMerge
    with assms show ?thesis by (simp add: exclusive_merge)
  qed (use assms(1) in \<open>auto simp: getCart_def updateQuantity_def removeItem_def clear_def
         checkout_def split: option.splits intro!: k dest: exclusive_found\<close>)
qed

text \<open>
  Every handler keeps the three properties together, on a well-formed collection, but
  for a \<^verbatim>\<open>POST /cart/add\<close> whose request carries both a user and a session id, or
  neither; at most one active cart per owner is kept by every handler, and holds in
  every collection that a run of requests builds from the empty one.
\<close>

theorem cart_invariant_preserved:
  "(wf_store st \<and> cart_invariant st \<and>
    (r = CartAdd \<longrightarrow> (body_user req = None) \<noteq> (body_sessionId req = None)) \<longrightarrow>
      cart_invariant (fst (handle r req st))) \<and>
   (wf_store st \<and> unique_active_owner st \<longrightarrow> unique_active_owner (fst (handle r req st))) \<and>
   wf_store (run ops empty_store) \<and> unique_active_owner (run ops empty_store)"
proof (intro conjI impI)
  assume h: "wf_store st \<and> cart_invariant st \<and>
    (r = CartAdd \<longrightarrow> (body_user req = None) \<noteq> (body_sessionId req = None))"
  then have "r \<noteq> CartAdd \<or> body_user req = None \<or> body_sessionId req = None" by auto
  with h show "cart_invariant (fst (handle r req st))"
    by (simp add: cart_invariant_def exclusive_handle owner_handle session_handle)
next
  assume "wf_store st \<and> unique_active_owner st"
  then show "unique_active_owner (fst (handle r req st))" by (simp add: owner_handle)
next
  show "wf_store (run ops empty_store)" by (rule wf_run) (rule wf_empty_store)
  show "unique_active_owner (run ops empty_store)"
    by (rule owner_run[OF wf_empty_store]) (simp add: unique_active_owner_def empty_store_def)
qed

theorem cart_invariant_preserved_witness:
  "wf_store (pen_store 3) \<and> cart_invariant (pen_store 3) \<and>
   body_user (pen_request 2) = None \<and> body_sessionId (pen_request 2) = Some ''s1'' \<and>
   unique_active_owner (pen_store 3) \<and>
   cart_invariant (fst (handle CartAdd (pen_request 2) (pen_store 3))) \<and>
   unique_active_owner (fst (handle CartAdd (pen_request 2) (pen_store 3)))"
proof -
  have h: "cart_invariant (pen_store 3) \<and> body_user (pen_request 2) = None \<and>
           body_sessionId (pen_request 2) = Some ''s1'' \<and> unique_active_owner (pen_store 3)"
    by (simp add: invariant_defs example_defs)
  note t = cart_invariant_preserved[of "pen_store 3" CartAdd "pen_request 2" "[]"]
  from t h wf_pen_store have a: "cart_invariant (fst (handle CartAdd (pen_request 2) (pen_store 3)))"
    by simp
  from t h wf_pen_store have b: "unique_active_owner (fst (handle CartAdd (pen_request 2) (pen_store 3)))"
    by blast
  from h wf_pen_store a b show ?thesis by blast
qed

end
